theory Spec2Isabelle
  imports Complex_Main
begin

section \<open>The sleep timer engine of \<^verbatim>\<open>src/timer.ts\<close>\<close>

text \<open>
  The engine is the class \<^verbatim>\<open>SleepTimer\<close>: one countdown, advanced by a
  one-second interval, which on expiry runs the registered callbacks, pauses the media,
  waits one second and suspends the machine.

  Conventions of the embedding:
  \<^item> a JavaScript \<^verbatim>\<open>number\<close> is a \<open>number\<close>: a finite binary64 value (held as
    the rational it denotes), an infinity or NaN, and \<^verbatim>\<open>*\<close>, \<^verbatim>\<open>--\<close>,
    \<^verbatim>\<open>Math.floor\<close> and \<^verbatim>\<open><=\<close> are the IEEE 754 operations, rounding to nearest
    with ties to even;
  \<^item> \<^verbatim>\<open>Date.now()\<close> is an argument of \<open>start\<close>, an integer count of milliseconds;
  \<^item> the mutable object is a record passed in and returned;
  \<^item> every effect on the outside (console, interval handles, callbacks, the two
    collaborators of \<^verbatim>\<open>platform.ts\<close>, the settle timeout) is appended to a trace, in
    program order;
  \<^item> \<^verbatim>\<open>expire\<close> is an \<^verbatim>\<open>async\<close> function: it runs synchronously up to the call
    of \<^verbatim>\<open>pauseMedia()\<close>, and each later segment runs when the awaited promise settles
    or the timeout fires. A run of the sequence that is waiting is an entry of
    \<open>pipelines\<close>; the settling of a promise, the passing of time and the firing of a
    timeout are actions of the environment, and a timeout fires no earlier than its
    delay after it was set.
\<close>

subsection \<open>JavaScript numbers\<close>

text \<open>
  Negative zero is identified with zero: the program multiplies, subtracts, floors,
  compares with \<^verbatim>\<open><=\<close> and prints its numbers, and none of these tells the two apart.
\<close>

datatype number = Fin rat | PInf | NInf | NaN

fun neg :: "number \<Rightarrow> number" where
  "neg (Fin x) = Fin (- x)"
| "neg PInf = NInf"
| "neg NInf = PInf"
| "neg NaN = NaN"

text \<open>The comparison \<^verbatim>\<open>a <= b\<close>, false whenever an operand is NaN.\<close>

fun le :: "number \<Rightarrow> number \<Rightarrow> bool" where
  "le (Fin a) (Fin b) = (a \<le> b)"
| "le (Fin a) PInf = True"
| "le NInf (Fin b) = True"
| "le NInf NInf = True"
| "le NInf PInf = True"
| "le PInf PInf = True"
| "le _ _ = False"

text \<open>The comparison \<^verbatim>\<open>a > 0\<close>.\<close>

fun positive :: "number \<Rightarrow> bool" where
  "positive (Fin x) = (0 < x)"
| "positive PInf = True"
| "positive _ = False"

text \<open>Rounding to the nearest integer, ties to the even one.\<close>

definition rne :: "rat \<Rightarrow> int" where
  "rne x =
     (let f = \<lfloor>x\<rfloor>; r = x - of_int f
      in if r < 1 / 2 then f else if 1 / 2 < r then f + 1 else if even f then f else f + 1)"

text \<open>
  The exponent \<open>e\<close> of the spacing \<open>2 powi e\<close> of the binary64 values around a
  non-negative \<open>x\<close>: the one with \<open>2 ^ 52 * 2 powi e \<le> x < 2 ^ 53 * 2 powi e\<close>, kept
  within \<open>- 1074\<close> (the subnormal spacing) and \<open>971\<close> (the spacing of the largest
  values). The search starts at spacing 1 and walks down or up.
\<close>

fun edown :: "nat \<Rightarrow> rat \<Rightarrow> int \<Rightarrow> int" where
  "edown 0 x e = e"
| "edown (Suc n) x e = (if x < 2 ^ 52 * 2 powi e then edown n x (e - 1) else e)"

fun eup :: "nat \<Rightarrow> rat \<Rightarrow> int \<Rightarrow> int" where
  "eup 0 x e = e"
| "eup (Suc n) x e = (if 2 ^ 53 * 2 powi e \<le> x then eup n x (e + 1) else e)"

definition exponent :: "rat \<Rightarrow> int" where
  "exponent x = (if 2 ^ 53 \<le> x then eup 971 x 0 else edown 1074 x 0)"

definition overflow :: rat where
  "overflow = 2 ^ 1024"

text \<open>
  The binary64 value nearest to a rational, ties to even; a result of magnitude
  \<open>2 ^ 1024\<close> is an infinity.
\<close>

definition round_pos :: "rat \<Rightarrow> number" where
  "round_pos x =
     (let q = 2 powi exponent x; y = q * of_int (rne (x / q))
      in if overflow \<le> y then PInf else Fin y)"

definition round64 :: "rat \<Rightarrow> number" where
  "round64 x = (if 0 \<le> x then round_pos x else neg (round_pos (- x)))"

definition is_double :: "rat \<Rightarrow> bool" where
  "is_double d = (round64 d = Fin d)"

text \<open>The product of an infinity with a finite value of the given sign.\<close>

definition signed_inf :: "rat \<Rightarrow> number" where
  "signed_inf x = (if x = 0 then NaN else if 0 < x then PInf else NInf)"

text \<open>\<^verbatim>\<open>a * b\<close>, \<^verbatim>\<open>a - b\<close> and \<^verbatim>\<open>Math.floor(a)\<close>.\<close>

definition js_times :: "number \<Rightarrow> number \<Rightarrow> number" where
  "js_times a b =
     (case a of
        NaN \<Rightarrow> NaN
      | Fin x \<Rightarrow> (case b of NaN \<Rightarrow> NaN | Fin y \<Rightarrow> round64 (x * y)
                   | PInf \<Rightarrow> signed_inf x | NInf \<Rightarrow> signed_inf (- x))
      | PInf \<Rightarrow> (case b of NaN \<Rightarrow> NaN | Fin y \<Rightarrow> signed_inf y
                   | PInf \<Rightarrow> PInf | NInf \<Rightarrow> NInf)
      | NInf \<Rightarrow> (case b of NaN \<Rightarrow> NaN | Fin y \<Rightarrow> signed_inf (- y)
                   | PInf \<Rightarrow> NInf | NInf \<Rightarrow> PInf))"

definition js_minus :: "number \<Rightarrow> number \<Rightarrow> number" where
  "js_minus a b =
     (case a of
        NaN \<Rightarrow> NaN
      | Fin x \<Rightarrow> (case b of NaN \<Rightarrow> NaN | Fin y \<Rightarrow> round64 (x - y)
                   | PInf \<Rightarrow> NInf | NInf \<Rightarrow> PInf)
      | PInf \<Rightarrow> (case b of NaN \<Rightarrow> NaN | Fin y \<Rightarrow> PInf | PInf \<Rightarrow> NaN | NInf \<Rightarrow> PInf)
      | NInf \<Rightarrow> (case b of NaN \<Rightarrow> NaN | Fin y \<Rightarrow> NInf | PInf \<Rightarrow> NInf | NInf \<Rightarrow> NaN))"

fun js_floor :: "number \<Rightarrow> number" where
  "js_floor (Fin x) = Fin (of_int \<lfloor>x\<rfloor>)"
| "js_floor PInf = PInf"
| "js_floor NInf = NInf"
| "js_floor NaN = NaN"

subsection \<open>Data\<close>

record TimerState =
  isRunning :: bool
  remainingSeconds :: number
  totalSeconds :: number
  startedAt :: "int option"

text \<open>The value both collaborators resolve to: \<^verbatim>\<open>{ success, message }\<close>.\<close>

record outcome =
  success :: bool
  message :: string

text \<open>The lines written to the console, one constructor per call site.\<close>

datatype logline =
    Started number number
  | Cancelled
  | Expired
  | CallbackError nat string
  | PauseMediaMsg string
  | SuspendMsg string

datatype event =
    Console logline
  | SetInterval nat nat
  | ClearInterval nat
  | CallbackCalled nat
  | PauseMedia nat
  | SetTimeout nat nat
  | SuspendSystem nat

text \<open>
  Where a run of the expiry sequence is waiting: for the promise of \<^verbatim>\<open>pauseMedia()\<close>,
  for the settle timeout (which may fire once the clock has reached the given instant),
  for the promise of \<^verbatim>\<open>suspendSystem()\<close>, or nowhere (it has returned).
\<close>

datatype phase = AwaitPause | AwaitSettle nat | AwaitSuspend | Finished

text \<open>
  A registered callback \<^verbatim>\<open>() => void\<close>. It may read the timer through
  \<^verbatim>\<open>getState()\<close> (its first argument is that snapshot), it acts on a world \<open>'w\<close>
  outside the engine, and it returns normally (\<open>None\<close>) or throws (\<open>Some e\<close>).
  Callbacks that call back into \<^verbatim>\<open>start\<close>, \<^verbatim>\<open>cancel\<close> or \<^verbatim>\<open>onExpire\<close>
  are outside the model.
\<close>

type_synonym 'w callback = "TimerState \<Rightarrow> 'w \<Rightarrow> 'w \<times> string option"

text \<open>
  The three private fields of the class, followed by the runtime around the singleton:
  the interval handles the platform holds active, the next fresh handle, the runs of the
  expiry sequence, the platform's clock in milliseconds, the callbacks' world and the
  trace.
\<close>

record 'w SleepTimer =
  state :: TimerState
  intervalId :: "nat option"
  onExpireCallbacks :: "'w callback list"
  active :: "nat list"
  nextHandle :: nat
  pipelines :: "phase list"
  clock :: nat
  world :: 'w
  trace :: "event list"

definition idle :: TimerState where
  "idle = \<lparr>isRunning = False, remainingSeconds = Fin 0, totalSeconds = Fin 0,
            startedAt = None\<rparr>"

definition initial :: "'w \<Rightarrow> 'w SleepTimer" where
  "initial w = \<lparr>state = idle, intervalId = None, onExpireCallbacks = [], active = [],
     nextHandle = 1, pipelines = [], clock = 0, world = w, trace = []\<rparr>"

subsection \<open>The platform's timers and the console\<close>

definition emit :: "event \<Rightarrow> 'w SleepTimer \<Rightarrow> 'w SleepTimer" where
  "emit e s = s\<lparr>trace := trace s @ [e]\<rparr>"

definition clearInterval :: "nat \<Rightarrow> 'w SleepTimer \<Rightarrow> 'w SleepTimer" where
  "clearInterval h s = emit (ClearInterval h) (s\<lparr>active := removeAll h (active s)\<rparr>)"

definition setInterval :: "nat \<Rightarrow> 'w SleepTimer \<Rightarrow> nat \<times> 'w SleepTimer" where
  "setInterval ms s =
     (let h = nextHandle s
      in (h, emit (SetInterval h ms) (s\<lparr>active := active s @ [h], nextHandle := Suc h\<rparr>)))"

text \<open>
  \<^verbatim>\<open>setTimeout(resolve, ms)\<close> inside run \<open>k\<close> of the expiry sequence: the run now
  waits until the clock reaches the present instant plus \<open>ms\<close>.
\<close>

definition setTimeout :: "nat \<Rightarrow> nat \<Rightarrow> 'w SleepTimer \<Rightarrow> 'w SleepTimer" where
  "setTimeout k ms s =
     (let s1 = emit (SetTimeout k ms) s
      in s1\<lparr>pipelines := (pipelines s1)[k := AwaitSettle (clock s1 + ms)]\<rparr>)"

subsection \<open>The public operations\<close>

definition getState :: "'w SleepTimer \<Rightarrow> TimerState" where
  "getState s = state s"

definition start :: "number \<Rightarrow> int \<Rightarrow> 'w SleepTimer \<Rightarrow> TimerState \<times> 'w SleepTimer" where
  "start minutes now s =
     (let s1 = (case intervalId s of Some h \<Rightarrow> clearInterval h s | None \<Rightarrow> s);
          total = js_floor (js_times minutes (Fin 60));
          s2 = s1\<lparr>state := \<lparr>isRunning = True, remainingSeconds = total,
                               totalSeconds = total, startedAt = Some now\<rparr>\<rparr>;
          (h, s3) = setInterval 1000 s2;
          s4 = s3\<lparr>intervalId := Some h\<rparr>;
          s5 = emit (Console (Started minutes total)) s4
      in (getState s5, s5))"

definition cancel :: "'w SleepTimer \<Rightarrow> TimerState \<times> 'w SleepTimer" where
  "cancel s =
     (let s1 = (case intervalId s of
                  Some h \<Rightarrow> (clearInterval h s)\<lparr>intervalId := None\<rparr>
                | None \<Rightarrow> s);
          s2 = s1\<lparr>state := \<lparr>isRunning = False, remainingSeconds = Fin 0,
                               totalSeconds = Fin 0, startedAt = None\<rparr>\<rparr>;
          s3 = emit (Console Cancelled) s2
      in (getState s3, s3))"

definition onExpire :: "'w callback \<Rightarrow> 'w SleepTimer \<Rightarrow> 'w SleepTimer" where
  "onExpire callback s = s\<lparr>onExpireCallbacks := onExpireCallbacks s @ [callback]\<rparr>"

subsection \<open>Expiry\<close>

text \<open>
  The loop over \<^verbatim>\<open>onExpireCallbacks\<close> with its \<^verbatim>\<open>try\<close>/\<^verbatim>\<open>catch\<close>; the
  second argument is the index of the callback in the registry.
\<close>

fun run_callbacks :: "'w callback list \<Rightarrow> nat \<Rightarrow> 'w SleepTimer \<Rightarrow> 'w SleepTimer" where
  "run_callbacks [] k s = s"
| "run_callbacks (callback # rest) k s =
     (let s1 = emit (CallbackCalled k) s;
          (w, thrown) = callback (getState s1) (world s1);
          s2 = s1\<lparr>world := w\<rparr>;
          s3 = (case thrown of
                  None \<Rightarrow> s2
                | Some e \<Rightarrow> emit (Console (CallbackError k e)) s2)
      in run_callbacks rest (Suc k) s3)"

text \<open>
  The synchronous segment of \<^verbatim>\<open>expire\<close>: everything up to and including the call
  \<^verbatim>\<open>pauseMedia()\<close>, whose promise the new pipeline entry then awaits.
\<close>

definition expire :: "'w SleepTimer \<Rightarrow> 'w SleepTimer" where
  "expire s =
     (let s1 = emit (Console Expired) s;
          s2 = (case intervalId s1 of
                  Some h \<Rightarrow> (clearInterval h s1)\<lparr>intervalId := None\<rparr>
                | None \<Rightarrow> s1);
          s3 = s2\<lparr>state := (state s2)\<lparr>isRunning := False\<rparr>\<rparr>;
          s4 = s3\<lparr>state := (state s3)\<lparr>remainingSeconds := Fin 0\<rparr>\<rparr>;
          s5 = run_callbacks (onExpireCallbacks s4) 0 s4;
          k = length (pipelines s5);
          s6 = emit (PauseMedia k) s5
      in s6\<lparr>pipelines := pipelines s6 @ [AwaitPause]\<rparr>)"

text \<open>
  The three later segments of run \<open>k\<close>: after \<^verbatim>\<open>await pauseMedia()\<close> (log, then
  \<^verbatim>\<open>setTimeout(resolve, 1000)\<close>), after the timeout (call \<^verbatim>\<open>suspendSystem()\<close>),
  after \<^verbatim>\<open>await suspendSystem()\<close> (log, return). A segment runs only when run \<open>k\<close>
  is waiting for it, and the second one only once the timeout is due.
\<close>

definition waiting :: "nat \<Rightarrow> phase \<Rightarrow> 'w SleepTimer \<Rightarrow> bool" where
  "waiting k p s = (k < length (pipelines s) \<and> pipelines s ! k = p)"

definition due :: "nat \<Rightarrow> 'w SleepTimer \<Rightarrow> nat option" where
  "due k s =
     (if k < length (pipelines s)
      then (case pipelines s ! k of AwaitSettle t \<Rightarrow> Some t | _ \<Rightarrow> None)
      else None)"

definition pauseResolved :: "nat \<Rightarrow> outcome \<Rightarrow> 'w SleepTimer \<Rightarrow> 'w SleepTimer" where
  "pauseResolved k pauseResult s =
     (if waiting k AwaitPause s then
        (let s1 = emit (Console (PauseMediaMsg (message pauseResult))) s
         in setTimeout k 1000 s1)
      else s)"

definition settleElapsed :: "nat \<Rightarrow> 'w SleepTimer \<Rightarrow> 'w SleepTimer" where
  "settleElapsed k s =
     (case due k s of
        None \<Rightarrow> s
      | Some t \<Rightarrow>
          if t \<le> clock s then
            (let s1 = emit (SuspendSystem k) s
             in s1\<lparr>pipelines := (pipelines s1)[k := AwaitSuspend]\<rparr>)
          else s)"

definition suspendResolved :: "nat \<Rightarrow> outcome \<Rightarrow> 'w SleepTimer \<Rightarrow> 'w SleepTimer" where
  "suspendResolved k suspendResult s =
     (if waiting k AwaitSuspend s then
        (let s1 = emit (Console (SuspendMsg (message suspendResult))) s
         in s1\<lparr>pipelines := (pipelines s1)[k := Finished]\<rparr>)
      else s)"

subsection \<open>The tick\<close>

definition tick :: "'w SleepTimer \<Rightarrow> 'w SleepTimer" where
  "tick s =
     (if \<not> isRunning (state s) then s
      else
        (let s1 = s\<lparr>state := (state s)
                    \<lparr>remainingSeconds := js_minus (remainingSeconds (state s)) (Fin 1)\<rparr>\<rparr>
         in if le (remainingSeconds (state s1)) (Fin 0) then expire s1 else s1))"

subsection \<open>Runs of the engine\<close>

text \<open>
  What can happen to the singleton: a call of one of its public operations, the interval
  callback \<^verbatim>\<open>() => this.tick()\<close>, the passing of time, or the settling of what a run
  of the expiry sequence awaits. \<open>Tick\<close> calls \<open>tick\<close> whether or not an interval is
  active, so a stale callback is covered too.
\<close>

datatype 'w action =
    Start number int
  | Cancel
  | GetState
  | OnExpire "'w callback"
  | Tick
  | Advance nat
  | PauseResolved nat outcome
  | SettleElapsed nat
  | SuspendResolved nat outcome

fun step :: "'w action \<Rightarrow> 'w SleepTimer \<Rightarrow> 'w SleepTimer" where
  "step (Start minutes now) s = snd (start minutes now s)"
| "step Cancel s = snd (cancel s)"
| "step GetState s = s"
| "step (OnExpire callback) s = onExpire callback s"
| "step Tick s = tick s"
| "step (Advance ms) s = s\<lparr>clock := clock s + ms\<rparr>"
| "step (PauseResolved k r) s = pauseResolved k r s"
| "step (SettleElapsed k) s = settleElapsed k s"
| "step (SuspendResolved k r) s = suspendResolved k r s"

fun run :: "'w action list \<Rightarrow> 'w SleepTimer \<Rightarrow> 'w SleepTimer" where
  "run [] s = s"
| "run (a # as) s = run as (step a s)"

subsection \<open>Closed forms and predicates used in the statements\<close>

text \<open>
  The events the callback loop appends, and the world it leaves, when every callback is
  handed the snapshot \<open>st\<close> and the loop starts at registry index \<open>k\<close> in world
  \<open>w\<close>.
\<close>

fun callback_events :: "'w callback list \<Rightarrow> nat \<Rightarrow> TimerState \<Rightarrow> 'w \<Rightarrow> event list" where
  "callback_events [] k st w = []"
| "callback_events (callback # rest) k st w =
     CallbackCalled k #
     (case snd (callback st w) of None \<Rightarrow> [] | Some e \<Rightarrow> [Console (CallbackError k e)]) @
     callback_events rest (Suc k) st (fst (callback st w))"

definition callbacks_world :: "'w callback list \<Rightarrow> TimerState \<Rightarrow> 'w \<Rightarrow> 'w" where
  "callbacks_world cbs st w = fold (\<lambda>callback v. fst (callback st v)) cbs w"

text \<open>The two assignments of \<^verbatim>\<open>expire\<close> to the fields of \<^verbatim>\<open>this.state\<close>.\<close>

definition expired :: "TimerState \<Rightarrow> TimerState" where
  "expired st = st\<lparr>isRunning := False, remainingSeconds := Fin 0\<rparr>"

text \<open>The state after \<^verbatim>\<open>this.state.remainingSeconds--\<close>.\<close>

definition decremented :: "'w SleepTimer \<Rightarrow> 'w SleepTimer" where
  "decremented s =
     s\<lparr>state := (state s)\<lparr>remainingSeconds := js_minus (remainingSeconds (state s)) (Fin 1)\<rparr>\<rparr>"

text \<open>
  What \<^verbatim>\<open>if (this.intervalId) clearInterval(this.intervalId)\<close> appends to the trace,
  and the handles it leaves active.
\<close>

definition cleared :: "'w SleepTimer \<Rightarrow> event list" where
  "cleared s = (case intervalId s of None \<Rightarrow> [] | Some h \<Rightarrow> [ClearInterval h])"

definition released :: "'w SleepTimer \<Rightarrow> nat list" where
  "released s = (case intervalId s of None \<Rightarrow> active s | Some h \<Rightarrow> removeAll h (active s))"





fun collaborator_call :: "event \<Rightarrow> bool" where
  "collaborator_call (PauseMedia k) = True"
| "collaborator_call (SuspendSystem k) = True"
| "collaborator_call _ = False"


text \<open>Kinds of actions.\<close>

fun positive_start :: "'w action \<Rightarrow> bool" where
  "positive_start (Start minutes now) = positive minutes"
| "positive_start _ = True"

fun is_start :: "'w action \<Rightarrow> bool" where
  "is_start (Start minutes now) = True"
| "is_start _ = False"

fun is_cancel :: "'w action \<Rightarrow> bool" where
  "is_cancel Cancel = True"
| "is_cancel _ = False"

text \<open>
  The platform holds exactly the engine's own handle, and a running timer has a handle
  and a start instant.
\<close>

definition one_source :: "'w SleepTimer \<Rightarrow> bool" where
  "one_source s =
     (active s = (case intervalId s of None \<Rightarrow> [] | Some h \<Rightarrow> [h]) \<and>
      (isRunning (state s) \<longrightarrow> intervalId s \<noteq> None \<and> startedAt (state s) \<noteq> None))"

text \<open>A count of seconds the engine can hold: a binary64 value or \<open>+\<infinity>\<close>.\<close>

fun held :: "number \<Rightarrow> bool" where
  "held (Fin d) = is_double d"
| "held PInf = True"
| "held _ = False"

definition state_ok :: "TimerState \<Rightarrow> bool" where
  "state_ok st =
     (held (totalSeconds st) \<and> held (remainingSeconds st) \<and>
      le (Fin 0) (totalSeconds st) \<and>
      le (remainingSeconds st) (totalSeconds st) \<and>
      (\<not> isRunning st \<longrightarrow> remainingSeconds st = Fin 0) \<and>
      (startedAt st = None \<longrightarrow> st = idle))"

section \<open>Rounding to binary64\<close>

lemma rne_of_int [simp]: "rne (of_int n) = n"
  by (simp add: rne_def)

lemma rne_bounds: "\<lfloor>x\<rfloor> \<le> rne x \<and> rne x \<le> \<lfloor>x\<rfloor> + 1"
  by (simp add: rne_def Let_def)

lemma rne_near: "\<bar>of_int (rne x) - x\<bar> \<le> 1 / 2"
proof -
  have "of_int \<lfloor>x\<rfloor> \<le> x" "x < of_int \<lfloor>x\<rfloor> + 1"
    by linarith+
  then show ?thesis
    unfolding rne_def Let_def by (auto simp: abs_le_iff)
qed

lemma rne_eqI: "\<bar>x - of_int n\<bar> < 1 / 2 \<Longrightarrow> rne x = n"
proof -
  assume a: "\<bar>x - of_int n\<bar> < 1 / 2"
  have "\<bar>of_int (rne x) - x\<bar> \<le> 1 / 2" by (rule rne_near)
  with a have "\<bar>(of_int (rne x) :: rat) - of_int n\<bar> < 1" by linarith
  then have "\<bar>rne x - n\<bar> < 1"
    by (metis of_int_diff of_int_abs of_int_less_1_iff)
  then show ?thesis by linarith
qed

lemma rne_mono: "x \<le> y \<Longrightarrow> rne x \<le> rne y"
proof -
  assume xy: "x \<le> y"
  then have f: "\<lfloor>x\<rfloor> \<le> \<lfloor>y\<rfloor>" by (rule floor_mono)
  show ?thesis
  proof (cases "\<lfloor>x\<rfloor> = \<lfloor>y\<rfloor>")
    case True
    with xy show ?thesis
      by (auto simp add: rne_def Let_def)
  next
    case False
    with f have "\<lfloor>x\<rfloor> + 1 \<le> \<lfloor>y\<rfloor>" by simp
    with rne_bounds [of x] rne_bounds [of y] show ?thesis by linarith
  qed
qed

lemma twice_powi: "2 * (2::rat) powi (e - 1) = 2 powi e"
  using power_int_minus_mult [of "2::rat" e] by (simp add: mult.commute)

lemma powi_succ: "(2::rat) powi (e + 1) = 2 * 2 powi e"
  by (simp add: power_int_add)

lemma powi_pos [simp]: "0 < (2::rat) powi e"
  by simp

lemma powi_less: "a < b \<Longrightarrow> 2 * (2::rat) powi a \<le> 2 powi b"
proof -
  assume "a < b"
  then have "a + 1 \<le> b" by simp
  then have "(2::rat) powi (a + 1) \<le> 2 powi b"
    by (rule power_int_increasing) simp
  then show ?thesis by (simp add: powi_succ)
qed

lemma edown_range: "edown n x e \<le> e \<and> e - int n \<le> edown n x e"
proof (induction n arbitrary: e)
  case 0
  show ?case by simp
next
  case (Suc n)
  from Suc [of "e - 1"] show ?case by simp
qed

lemma edown_hi: "x < 2 ^ 53 * 2 powi e \<Longrightarrow> x < 2 ^ 53 * 2 powi (edown n x e)"
proof (induction n arbitrary: e)
  case 0
  then show ?case by simp
next
  case (Suc n)
  show ?case
  proof (cases "x < 2 ^ 52 * 2 powi e")
    case True
    then have "x < 2 ^ 53 * 2 powi (e - 1)"
      using twice_powi [of e] by simp
    from Suc.IH [OF this] True show ?thesis by simp
  next
    case False
    with Suc.prems show ?thesis by simp
  qed
qed

lemma edown_lo: "2 ^ 52 * 2 powi (edown n x e) \<le> x \<or> edown n x e = e - int n"
proof (induction n arbitrary: e)
  case 0
  show ?case by simp
next
  case (Suc n)
  from Suc [of "e - 1"] show ?case by auto
qed

lemma eup_range: "e \<le> eup n x e \<and> eup n x e \<le> e + int n"
proof (induction n arbitrary: e)
  case 0
  show ?case by simp
next
  case (Suc n)
  from Suc [of "e + 1"] show ?case by simp
qed

lemma eup_lo: "2 ^ 52 * 2 powi e \<le> x \<Longrightarrow> 2 ^ 52 * 2 powi (eup n x e) \<le> x"
proof (induction n arbitrary: e)
  case 0
  then show ?case by simp
next
  case (Suc n)
  show ?case
  proof (cases "2 ^ 53 * 2 powi e \<le> x")
    case True
    then have "2 ^ 52 * 2 powi (e + 1) \<le> x"
      by (simp add: powi_succ)
    from Suc.IH [OF this] True show ?thesis by simp
  next
    case False
    with Suc.prems show ?thesis by simp
  qed
qed

lemma eup_hi: "x < 2 ^ 53 * 2 powi (eup n x e) \<or> eup n x e = e + int n"
proof (induction n arbitrary: e)
  case 0
  show ?case by simp
next
  case (Suc n)
  from Suc [of "e + 1"] show ?case by auto
qed

lemma exponent_range: "- 1074 \<le> exponent x \<and> exponent x \<le> 971"
  using edown_range [of 1074 x 0] eup_range [of 0 971 x]
  by (simp add: exponent_def)

lemma exponent_lo: "2 ^ 52 * 2 powi exponent x \<le> x \<or> exponent x = - 1074"
proof (cases "(2::rat) ^ 53 \<le> x")
  case True
  then have "2 ^ 52 * 2 powi 0 \<le> x" by simp
  from eup_lo [OF this, of 971] True show ?thesis by (simp add: exponent_def)
next
  case False
  with edown_lo [of 1074 x 0] show ?thesis by (simp add: exponent_def)
qed

lemma exponent_hi: "x < 2 ^ 53 * 2 powi exponent x \<or> exponent x = 971"
proof (cases "(2::rat) ^ 53 \<le> x")
  case True
  with eup_hi [of x 971 0] show ?thesis by (simp add: exponent_def)
next
  case False
  then have "x < 2 ^ 53 * 2 powi 0" by simp
  from edown_hi [OF this, of 1074] False show ?thesis by (simp add: exponent_def)
qed

lemma exponent_eqI:
  assumes range: "- 1074 \<le> e" "e \<le> 971"
    and lo: "2 ^ 52 * 2 powi e \<le> x \<or> e = - 1074"
    and hi: "x < 2 ^ 53 * 2 powi e \<or> e = 971"
  shows "exponent x = e"
proof (rule ccontr)
  assume ne: "exponent x \<noteq> e"
  let ?f = "exponent x"
  show False
  proof (cases "?f < e")
    case True
    with exponent_range [of x] range have "e \<noteq> - 1074" "?f \<noteq> 971" by simp_all
    with lo exponent_hi [of x] have "2 ^ 52 * 2 powi e \<le> x" "x < 2 ^ 53 * 2 powi ?f"
      by simp_all
    moreover from powi_less [OF True] have "2 ^ 53 * (2::rat) powi ?f \<le> 2 ^ 52 * 2 powi e"
      by simp
    ultimately show False by linarith
  next
    case False
    with ne have less: "e < ?f" by simp
    with exponent_range [of x] range have "?f \<noteq> - 1074" "e \<noteq> 971" by simp_all
    with hi exponent_lo [of x] have "2 ^ 52 * 2 powi ?f \<le> x" "x < 2 ^ 53 * 2 powi e"
      by simp_all
    moreover from powi_less [OF less] have "2 ^ 53 * (2::rat) powi e \<le> 2 ^ 52 * 2 powi ?f"
      by simp
    ultimately show False by linarith
  qed
qed

lemma exponent_mono: "x \<le> y \<Longrightarrow> exponent x \<le> exponent y"
proof (rule ccontr)
  assume xy: "x \<le> y" and "\<not> exponent x \<le> exponent y"
  then have less: "exponent y < exponent x" by simp
  with exponent_range [of x] exponent_range [of y]
  have "exponent x \<noteq> - 1074" "exponent y \<noteq> 971" by simp_all
  with exponent_lo [of x] exponent_hi [of y]
  have "2 ^ 52 * 2 powi exponent x \<le> x" "y < 2 ^ 53 * 2 powi exponent y"
    by simp_all
  moreover from powi_less [OF less]
  have "2 ^ 53 * (2::rat) powi exponent y \<le> 2 ^ 52 * 2 powi exponent x"
    by simp
  ultimately show False using xy by linarith
qed

lemma round_pos_unfold:
  "exponent x = e \<Longrightarrow>
   round_pos x = (if overflow \<le> 2 powi e * rat_of_int (rne (x / 2 powi e)) then PInf
                  else Fin (2 powi e * rat_of_int (rne (x / 2 powi e))))"
  by (simp add: round_pos_def Let_def)

lemma overflow_eq: "overflow = 2 ^ 971 * 2 ^ 53"
  by (simp add: overflow_def flip: power_add)

lemma overflow_big: "(2::rat) ^ 53 < overflow"
  by (simp add: overflow_def)

lemma rne_nonneg: "0 \<le> x \<Longrightarrow> 0 \<le> rne x"
  using rne_mono [of 0 x] rne_of_int [of 0] by simp

lemma round_pos_sign:
  "0 \<le> x \<Longrightarrow> round_pos x = PInf \<or> (\<exists>y. 0 \<le> y \<and> round_pos x = Fin y)"
proof -
  assume "0 \<le> x"
  then have "0 \<le> x / 2 powi exponent x" by simp
  then have "0 \<le> rne (x / 2 powi exponent x)" by (rule rne_nonneg)
  then have "0 \<le> 2 powi exponent x * rat_of_int (rne (x / 2 powi exponent x))" by simp
  then show ?thesis
    by (simp add: round_pos_def Let_def)
qed

lemma two_53_int: "(2::rat) ^ 53 = of_int (2 ^ 53)" "(2::rat) ^ 52 = of_int (2 ^ 52)"
  by simp_all

lemma round_pos_value_mono:
  assumes "0 \<le> x" "x \<le> y"
  shows "2 powi exponent x * of_int (rne (x / 2 powi exponent x))
         \<le> 2 powi exponent y * rat_of_int (rne (y / 2 powi exponent y))"
proof (cases "exponent x = exponent y")
  case True
  from assms have "x / 2 powi exponent y \<le> y / 2 powi exponent y"
    by (simp add: divide_right_mono)
  then have "rne (x / 2 powi exponent y) \<le> rne (y / 2 powi exponent y)"
    by (rule rne_mono)
  then show ?thesis by (simp add: True)
next
  case False
  let ?e1 = "exponent x" and ?e2 = "exponent y"
  from False exponent_mono [OF assms(2)] have less: "?e1 < ?e2" by simp
  with exponent_range [of x] exponent_range [of y]
  have "?e1 \<noteq> 971" "?e2 \<noteq> - 1074" by simp_all
  with exponent_hi [of x] exponent_lo [of y]
  have hi: "x < 2 ^ 53 * 2 powi ?e1" and lo: "2 ^ 52 * 2 powi ?e2 \<le> y"
    by simp_all
  from hi have "x / 2 powi ?e1 \<le> of_int (2 ^ 53)"
    by (simp add: pos_divide_le_eq)
  from rne_mono [OF this] have n1: "rne (x / 2 powi ?e1) \<le> 2 ^ 53"
    by (simp only: rne_of_int)
  from lo have "of_int (2 ^ 52) \<le> y / 2 powi ?e2"
    by (simp add: pos_le_divide_eq)
  from rne_mono [OF this] have n2: "2 ^ 52 \<le> rne (y / 2 powi ?e2)"
    by (simp only: rne_of_int)
  from n1 have "rat_of_int (rne (x / 2 powi ?e1)) \<le> 2 ^ 53"
    by (metis of_int_le_iff two_53_int(1))
  then have a: "2 powi ?e1 * rat_of_int (rne (x / 2 powi ?e1)) \<le> 2 powi ?e1 * 2 ^ 53"
    by (simp add: mult_left_mono)
  from n2 have "2 ^ 52 \<le> rat_of_int (rne (y / 2 powi ?e2))"
    by (metis of_int_le_iff two_53_int(2))
  then have b: "2 powi ?e2 * 2 ^ 52 \<le> 2 powi ?e2 * rat_of_int (rne (y / 2 powi ?e2))"
    by (simp add: mult_left_mono)
  from powi_less [OF less] have "2 powi ?e1 * (2::rat) ^ 53 \<le> 2 powi ?e2 * 2 ^ 52"
    by simp
  with a b show ?thesis by linarith
qed

lemma round_pos_mono:
  assumes "0 \<le> x" "x \<le> y"
  shows "le (round_pos x) (round_pos y)"
  using round_pos_value_mono [OF assms]
  by (simp add: round_pos_def Let_def)

lemma powi_nonneg_int: "0 \<le> k \<Longrightarrow> (2::rat) powi k = of_int (2 ^ nat k)"
  by (simp add: power_int_def)

lemma representable_less:
  assumes e: "- 1074 \<le> e" and m: "0 \<le> m" "m < 2 ^ 53"
    and fin: "2 powi e * rat_of_int m < overflow"
  shows "round_pos (2 powi e * of_int m) = Fin (2 powi e * of_int m)"
proof -
  let ?d = "2 powi e * rat_of_int m"
  let ?f = "exponent ?d"
  from m(2) have "rat_of_int m < 2 ^ 53"
    by (metis of_int_less_iff two_53_int(1))
  then have below: "?d < 2 ^ 53 * 2 powi e" by simp
  have f_le: "?f \<le> e"
  proof (rule ccontr)
    assume "\<not> ?f \<le> e"
    then have less: "e < ?f" by simp
    with e have "?f \<noteq> - 1074" by simp
    with exponent_lo [of ?d] have "2 ^ 52 * 2 powi ?f \<le> ?d" by simp
    moreover from powi_less [OF less] have "2 ^ 53 * (2::rat) powi e \<le> 2 ^ 52 * 2 powi ?f"
      by simp
    ultimately show False using below by linarith
  qed
  have "?d / 2 powi ?f = 2 powi (e - ?f) * of_int m"
    by (simp add: power_int_diff)
  also from f_le have "\<dots> = of_int (2 ^ nat (e - ?f) * m)"
    by (simp add: powi_nonneg_int)
  finally have "rne (?d / 2 powi ?f) = 2 ^ nat (e - ?f) * m"
    by (simp only: rne_of_int)
  then have "2 powi ?f * rat_of_int (rne (?d / 2 powi ?f)) = 2 powi ?f * (2 powi (e - ?f) * of_int m)"
    using f_le by (simp add: powi_nonneg_int)
  also have "\<dots> = ?d"
    using power_int_add [of "2::rat" ?f "e - ?f"] by simp
  finally have "2 powi ?f * rat_of_int (rne (?d / 2 powi ?f)) = ?d" .
  with fin show ?thesis
    by (simp add: round_pos_def Let_def)
qed

lemma representable:
  assumes e: "- 1074 \<le> e" and m: "0 \<le> m" "m \<le> 2 ^ 53"
    and fin: "2 powi e * rat_of_int m < overflow"
  shows "round_pos (2 powi e * of_int m) = Fin (2 powi e * of_int m)"
proof (cases "m = 2 ^ 53")
  case False
  with m have "m < 2 ^ 53" by simp
  from representable_less [OF e m(1) this fin] show ?thesis .
next
  case True
  have eq: "2 powi e * rat_of_int m = 2 powi (e + 1) * rat_of_int (2 ^ 52)"
    by (simp add: True powi_succ)
  from e have "- 1074 \<le> e + 1" by simp
  from representable_less [OF this, of "2 ^ 52"] fin show ?thesis
    unfolding eq by simp
qed

lemma round_pos_idem:
  assumes "0 \<le> x" "round_pos x = Fin d"
  shows "round_pos d = Fin d"
proof -
  let ?e = "exponent x"
  let ?n = "rne (x / 2 powi ?e)"
  from assms(2) have d: "d = 2 powi ?e * rat_of_int ?n" and fin: "2 powi ?e * rat_of_int ?n < overflow"
    by (simp_all add: round_pos_def Let_def split: if_splits)
  from assms(1) have n0: "0 \<le> ?n" by (simp add: rne_nonneg)
  have n53: "?n \<le> 2 ^ 53"
  proof (cases "?e = 971")
    case True
    with fin have "2 ^ 971 * rat_of_int ?n < 2 ^ 971 * 2 ^ 53" by (simp add: overflow_eq)
    then have "rat_of_int ?n < 2 ^ 53" by simp
    then have "?n < 2 ^ 53" by (metis of_int_less_iff two_53_int(1))
    then show ?thesis by simp
  next
    case False
    with exponent_hi [of x] have "x < 2 ^ 53 * 2 powi ?e" by simp
    then have "x / 2 powi ?e \<le> of_int (2 ^ 53)"
      by (simp add: pos_divide_le_eq)
    from rne_mono [OF this] show ?thesis by (simp only: rne_of_int)
  qed
  from exponent_range [of x] have "- 1074 \<le> ?e" by simp
  from representable [OF this n0 n53 fin] show ?thesis by (simp add: d)
qed

lemma round_pos_of_int:
  assumes "0 \<le> k" "k \<le> 2 ^ 53"
  shows "round_pos (of_int k) = Fin (of_int k)"
proof -
  from assms(2) have "rat_of_int k \<le> 2 ^ 53"
    by (metis of_int_le_iff two_53_int(1))
  with overflow_big have "2 powi 0 * rat_of_int k < overflow"
    by simp
  from representable [OF _ assms this] show ?thesis by simp
qed

lemma round_pos_integral:
  assumes "2 ^ 53 \<le> d" "round_pos d = Fin d"
  shows "d = of_int \<lfloor>d\<rfloor>"
proof -
  let ?e = "exponent d"
  from assms(1) have "?e = eup 971 d 0" by (simp add: exponent_def)
  with eup_range [of 0 971 d] have "0 \<le> ?e" by simp
  from assms(2) have "d = 2 powi ?e * rat_of_int (rne (d / 2 powi ?e))"
    by (simp add: round_pos_def Let_def split: if_splits)
  with \<open>0 \<le> ?e\<close> have "d = of_int (2 ^ nat ?e * rne (d / 2 powi ?e))"
    by (simp add: powi_nonneg_int)
  then show ?thesis by (metis floor_of_int)
qed

lemma round64_nonneg: "0 \<le> x \<Longrightarrow> round64 x = round_pos x"
  by (simp add: round64_def)

lemma round_pos_0: "round_pos 0 = Fin 0"
  using round_pos_of_int [of 0] by simp

lemma round64_minus: "round64 (- x) = neg (round64 x)"
proof (cases "x = 0")
  case True
  then show ?thesis by (simp add: round64_def round_pos_0)
next
  case False
  show ?thesis
  proof (cases "0 < x")
    case True
    then show ?thesis by (simp add: round64_def)
  next
    case neg: False
    with False have "x < 0" by simp
    then show ?thesis
      by (cases "round_pos (- x)") (simp_all add: round64_def)
  qed
qed

lemma le_neg: "le a b \<Longrightarrow> le (neg b) (neg a)"
  by (cases a; cases b) simp_all

lemma le_refl_Fin: "le (Fin a) (Fin a)"
  by simp

lemma round64_sign_pos:
  "0 \<le> x \<Longrightarrow> round64 x = PInf \<or> (\<exists>y. 0 \<le> y \<and> round64 x = Fin y)"
  using round_pos_sign [of x] by (simp add: round64_def)

lemma round64_sign_neg:
  "x \<le> 0 \<Longrightarrow> round64 x = NInf \<or> (\<exists>y. y \<le> 0 \<and> round64 x = Fin y)"
proof -
  assume "x \<le> 0"
  then have "0 \<le> - x" by simp
  from round64_sign_pos [OF this] show ?thesis
    by (auto simp add: round64_minus elim!: neg.elims)
qed

lemma round64_mono: "x \<le> y \<Longrightarrow> le (round64 x) (round64 y)"
proof -
  assume xy: "x \<le> y"
  show ?thesis
  proof (cases "0 \<le> x")
    case True
    with xy have "0 \<le> y" by simp
    with True xy show ?thesis by (simp add: round64_def round_pos_mono)
  next
    case False
    then have x: "x \<le> 0" by simp
    show ?thesis
    proof (cases "0 \<le> y")
      case True
      from round64_sign_neg [OF x] round64_sign_pos [OF True] show ?thesis by auto
    next
      case y: False
      with xy have "0 \<le> - y" "- y \<le> - x" by simp_all
      then have "le (round_pos (- y)) (round_pos (- x))" by (rule round_pos_mono)
      from le_neg [OF this] False y show ?thesis by (simp add: round64_def)
    qed
  qed
qed

lemma round64_idem: "round64 x = Fin d \<Longrightarrow> round64 d = Fin d"
proof (cases "0 \<le> x")
  case True
  assume r: "round64 x = Fin d"
  with True have rp: "round_pos x = Fin d" by (simp add: round64_def)
  from round_pos_sign [OF True] rp have "0 \<le> d" by auto
  with round_pos_idem [OF True rp] show ?thesis by (simp add: round64_def)
next
  case False
  assume r: "round64 x = Fin d"
  from False have pos: "0 \<le> - x" by simp
  from r False have rp: "round_pos (- x) = Fin (- d)"
    by (cases "round_pos (- x)") (simp_all add: round64_def)
  from round_pos_sign [OF pos] rp have d: "0 \<le> - d" by auto
  from round_pos_idem [OF pos rp] d have "round64 (- d) = Fin (- d)"
    by (simp add: round64_def)
  then show ?thesis by (simp add: round64_minus) (cases "round64 d", simp_all)
qed

lemma is_double_round64: "round64 x = Fin d \<Longrightarrow> is_double d"
  by (simp add: is_double_def round64_idem)

lemma is_double_minus: "is_double (- d) = is_double d"
  by (cases "round64 d") (simp_all add: is_double_def round64_minus)

lemma is_double_of_int: "\<bar>k\<bar> \<le> 2 ^ 53 \<Longrightarrow> is_double (of_int k)"
proof (cases "0 \<le> k")
  case True
  assume "\<bar>k\<bar> \<le> 2 ^ 53"
  with True round_pos_of_int [of k] show ?thesis
    by (simp add: is_double_def round64_def)
next
  case False
  assume "\<bar>k\<bar> \<le> 2 ^ 53"
  with False round_pos_of_int [of "- k"] have "is_double (of_int (- k))"
    by (simp add: is_double_def round64_def)
  then show ?thesis by (simp add: is_double_minus)
qed

lemma round64_of_int: "\<bar>k\<bar> \<le> 2 ^ 53 \<Longrightarrow> round64 (of_int k) = Fin (of_int k)"
  using is_double_of_int [of k] by (simp add: is_double_def)

lemma is_double_integral_or_small:
  assumes "is_double d"
  shows "\<bar>d\<bar> < 2 ^ 53 \<or> d = of_int \<lfloor>d\<rfloor>"
proof (cases "\<bar>d\<bar> < 2 ^ 53")
  case True
  then show ?thesis by simp
next
  case False
  show ?thesis
  proof (cases "0 \<le> d")
    case True
    with False assms round_pos_integral [of d] show ?thesis
      by (simp add: is_double_def round64_def)
  next
    case neg: False
    from assms have "is_double (- d)" by (simp add: is_double_minus)
    with False neg round_pos_integral [of "- d"] have "- d = of_int \<lfloor>- d\<rfloor>"
      by (simp add: is_double_def round64_def)
    then have "d = of_int (- \<lfloor>- d\<rfloor>)" by simp
    then show ?thesis by (metis floor_of_int)
  qed
qed

lemma is_double_floor:
  assumes "is_double d"
  shows "is_double (of_int \<lfloor>d\<rfloor>)"
proof (cases "d = of_int \<lfloor>d\<rfloor>")
  case True
  with assms show ?thesis by simp
next
  case False
  with is_double_integral_or_small [OF assms] have small: "\<bar>d\<bar> < 2 ^ 53" by simp
  then have u: "d < of_int (2 ^ 53)" and l: "of_int (- (2 ^ 53)) \<le> d" by simp_all
  from u have "\<lfloor>d\<rfloor> < 2 ^ 53" unfolding floor_less_iff .
  moreover from l have "- (2 ^ 53) \<le> \<lfloor>d\<rfloor>" unfolding le_floor_iff .
  ultimately have "\<bar>\<lfloor>d\<rfloor>\<bar> \<le> 2 ^ 53" by linarith
  then show ?thesis by (rule is_double_of_int)
qed

lemma decrement_le:
  assumes "is_double r"
  shows "le (round64 (r - 1)) (Fin r)"
proof -
  have "le (round64 (r - 1)) (round64 r)"
    by (rule round64_mono) simp
  with assms show ?thesis by (simp add: is_double_def)
qed

lemma round_pos_eval:
  assumes "- 1074 \<le> e" "e \<le> 971"
    and "2 ^ 52 * 2 powi e \<le> x \<or> e = - 1074"
    and "x < 2 ^ 53 * 2 powi e \<or> e = 971"
    and "\<bar>x / 2 powi e - of_int n\<bar> < 1 / 2"
    and "2 powi e * rat_of_int n < overflow"
  shows "round_pos x = Fin (2 powi e * of_int n)"
proof -
  from assms(1-4) have "exponent x = e" by (rule exponent_eqI)
  moreover from assms(5) have "rne (x / 2 powi e) = n" by (rule rne_eqI)
  ultimately show ?thesis using assms(6)
    by (simp add: round_pos_unfold)
qed


lemma round64_eval:
  assumes "- 1074 \<le> e" "e \<le> 971"
    and "2 ^ 52 * 2 powi e \<le> x \<or> e = - 1074"
    and "x < 2 ^ 53 * 2 powi e \<or> e = 971"
    and "\<bar>x / 2 powi e - of_int n\<bar> < 1 / 2"
    and "2 powi e * rat_of_int n < overflow"
    and "0 \<le> x"
  shows "round64 x = Fin (2 powi e * of_int n)"
    and "round64 (- x) = Fin (- (2 powi e * of_int n))"
proof -
  from round_pos_eval [OF assms(1-6)] assms(7)
  show "round64 x = Fin (2 powi e * of_int n)"
    by (simp add: round64_def)
  then show "round64 (- x) = Fin (- (2 powi e * of_int n))"
    by (simp add: round64_minus)
qed

lemma round64_0: "round64 0 = Fin 0"
  using round64_of_int [of 0] by simp

lemma round64_1: "round64 1 = Fin 1"
  using round64_of_int [of 1] by simp

lemma round64_minus_1: "round64 (- 1) = Fin (- 1)"
  using round64_of_int [of "- 1"] by simp

lemma round64_numeral:
  "(numeral n :: int) \<le> 2 ^ 53 \<Longrightarrow> round64 (numeral n) = Fin (numeral n)"
  using round64_of_int [of "numeral n"] by simp

lemma round64_neg_numeral:
  "(numeral n :: int) \<le> 2 ^ 53 \<Longrightarrow> round64 (- numeral n) = Fin (- numeral n)"
  using round64_of_int [of "- numeral n"] by simp

lemma is_double_0: "is_double 0"
  by (simp add: is_double_def round64_0)

lemma js_times_Fin: "js_times (Fin x) (Fin y) = round64 (x * y)"
  by (simp add: js_times_def)

lemma js_minus_Fin: "js_minus (Fin x) (Fin y) = round64 (x - y)"
  by (simp add: js_minus_def)

lemma round64_between:
  assumes "\<bar>y\<bar> \<le> 2 ^ 53"
  shows "\<exists>z. round64 y = Fin z \<and> of_int \<lfloor>y\<rfloor> \<le> z \<and> z \<le> of_int \<lceil>y\<rceil>"
proof -
  from assms have u: "y \<le> of_int (2 ^ 53)" and l: "of_int (- (2 ^ 53)) \<le> y" by simp_all
  from l have "- (2 ^ 53) \<le> \<lfloor>y\<rfloor>" unfolding le_floor_iff .
  moreover have "\<lfloor>y\<rfloor> \<le> \<lceil>y\<rceil>" by (rule floor_le_ceiling)
  moreover from u have "\<lceil>y\<rceil> \<le> 2 ^ 53" unfolding ceiling_le_iff .
  ultimately have "\<bar>\<lfloor>y\<rfloor>\<bar> \<le> 2 ^ 53" "\<bar>\<lceil>y\<rceil>\<bar> \<le> 2 ^ 53" by linarith+
  then have lo: "round64 (of_int \<lfloor>y\<rfloor>) = Fin (of_int \<lfloor>y\<rfloor>)"
    and hi: "round64 (of_int \<lceil>y\<rceil>) = Fin (of_int \<lceil>y\<rceil>)"
    by (simp_all add: round64_of_int)
  have "le (round64 (of_int \<lfloor>y\<rfloor>)) (round64 y)"
    by (rule round64_mono) simp
  moreover have "le (round64 y) (round64 (of_int \<lceil>y\<rceil>))"
    by (rule round64_mono) simp
  ultimately show ?thesis
    unfolding lo hi by (cases "round64 y") simp_all
qed

lemma floor_round64:
  assumes "\<bar>y\<bar> \<le> 2 ^ 53"
  shows "js_floor (round64 y) = Fin (of_int \<lfloor>y\<rfloor>) \<or>
         js_floor (round64 y) = Fin (of_int (\<lfloor>y\<rfloor> + 1))"
proof -
  from round64_between [OF assms] obtain z
    where z: "round64 y = Fin z" and lo: "of_int \<lfloor>y\<rfloor> \<le> z" and hi: "z \<le> of_int \<lceil>y\<rceil>"
    by blast
  from lo have "\<lfloor>y\<rfloor> \<le> \<lfloor>z\<rfloor>" unfolding le_floor_iff .
  moreover from floor_mono [OF hi] have "\<lfloor>z\<rfloor> \<le> \<lceil>y\<rceil>"
    by simp
  moreover have "\<lceil>y\<rceil> \<le> \<lfloor>y\<rfloor> + 1" by linarith
  ultimately have "\<lfloor>z\<rfloor> = \<lfloor>y\<rfloor> \<or> \<lfloor>z\<rfloor> = \<lfloor>y\<rfloor> + 1" by linarith
  then show ?thesis by (auto simp add: z)
qed

lemma floor_exact:
  "is_double y \<Longrightarrow> js_floor (round64 y) = Fin (of_int \<lfloor>y\<rfloor>)"
  by (simp add: is_double_def)

lemma held_floor: "held a \<Longrightarrow> held (js_floor a)"
  by (cases a) (simp_all add: is_double_floor)

lemma held_round64_pos: "0 \<le> x \<Longrightarrow> held (round64 x) \<and> le (Fin 0) (round64 x)"
  using round64_sign_pos [of x] by (auto simp add: is_double_round64)

lemma start_total_ok:
  assumes "positive minutes"
  shows "held (js_floor (js_times minutes (Fin 60))) \<and>
         le (Fin 0) (js_floor (js_times minutes (Fin 60)))"
proof (cases minutes)
  case (Fin x)
  with assms have "0 \<le> x * 60" by simp
  from held_round64_pos [OF this] have h: "held (round64 (x * 60))"
    and p: "le (Fin 0) (round64 (x * 60))" by simp_all
  from p have "le (Fin 0) (js_floor (round64 (x * 60)))"
    by (cases "round64 (x * 60)") simp_all
  with held_floor [OF h] Fin show ?thesis by (simp add: js_times_Fin)
next
  case PInf
  then show ?thesis by (simp add: js_times_def signed_inf_def)
qed (use assms in simp_all)

lemma start_total_nonpos:
  assumes "le minutes (Fin 0)"
  shows "le (js_floor (js_times minutes (Fin 60))) (Fin 0)"
proof (cases minutes)
  case (Fin x)
  with assms have "x * 60 \<le> 0" by simp
  from round64_sign_neg [OF this] have "le (js_floor (round64 (x * 60))) (Fin 0)"
    by (auto simp add: floor_le_iff)
  with Fin show ?thesis by (simp add: js_times_Fin)
next
  case NInf
  then show ?thesis by (simp add: js_times_def signed_inf_def)
qed (use assms in simp_all)

lemma held_le_self: "held a \<Longrightarrow> le a a"
  by (cases a) simp_all

lemma le_trans: "le a b \<Longrightarrow> le b c \<Longrightarrow> le a c"
  by (cases a; cases b; cases c) simp_all

lemma decrement_held:
  assumes "held r" "le r t"
  shows "le (js_minus r (Fin 1)) (Fin 0) \<or>
         (held (js_minus r (Fin 1)) \<and> le (js_minus r (Fin 1)) t)"
proof (cases r)
  case (Fin d)
  with assms(1) have d: "is_double d" by simp
  from decrement_le [OF d] have below: "le (round64 (d - 1)) (Fin d)" .
  show ?thesis
  proof (cases "round64 (d - 1)")
    case (Fin d')
    then have "held (round64 (d - 1))" by (simp add: is_double_round64)
    moreover from below assms(2) \<open>r = Fin d\<close> have "le (round64 (d - 1)) t"
      by (metis le_trans)
    ultimately show ?thesis using \<open>r = Fin d\<close> by (simp add: js_minus_Fin)
  next
    case NInf
    with \<open>r = Fin d\<close> show ?thesis by (simp add: js_minus_Fin)
  next
    case PInf
    with below show ?thesis by simp
  next
    case NaN
    with below show ?thesis by simp
  qed
next
  case PInf
  with assms show ?thesis by (simp add: js_minus_def)
qed (use assms in simp_all)

lemma decrement_of_int:
  "\<bar>k - 1\<bar> \<le> 2 ^ 53 \<Longrightarrow> js_minus (Fin (of_int k)) (Fin 1) = Fin (of_int (k - 1))"
  using round64_of_int [of "k - 1"] by (simp add: js_minus_Fin)


section \<open>What each operation does, in closed form\<close>

lemma start_eq:
  "snd (start m t s) = s\<lparr>state := \<lparr>isRunning = True,
        remainingSeconds = js_floor (js_times m (Fin 60)),
        totalSeconds = js_floor (js_times m (Fin 60)), startedAt = Some t\<rparr>,
      intervalId := Some (nextHandle s),
      active := (case intervalId s of None \<Rightarrow> active s | Some h \<Rightarrow> removeAll h (active s)) @ [nextHandle s],
      nextHandle := Suc (nextHandle s),
      trace := trace s @ (case intervalId s of None \<Rightarrow> [] | Some h \<Rightarrow> [ClearInterval h])
                 @ [SetInterval (nextHandle s) 1000,
                    Console (Started m (js_floor (js_times m (Fin 60))))]\<rparr>"
  by (simp add: start_def Let_def setInterval_def clearInterval_def emit_def getState_def split: option.split)

lemma start_fst: "fst (start m t s) = state (snd (start m t s))"
  by (simp add: start_def Let_def setInterval_def getState_def emit_def split: prod.split)

lemma cancel_eq:
  "snd (cancel s) = s\<lparr>state := idle, intervalId := None,
      active := (case intervalId s of None \<Rightarrow> active s | Some h \<Rightarrow> removeAll h (active s)),
      trace := trace s @ (case intervalId s of None \<Rightarrow> [] | Some h \<Rightarrow> [ClearInterval h])
                 @ [Console Cancelled]\<rparr>"
  by (simp add: cancel_def Let_def clearInterval_def emit_def getState_def idle_def split: option.split)

lemma cancel_fst: "fst (cancel s) = idle"
  by (simp add: cancel_def Let_def getState_def emit_def idle_def)

lemma run_callbacks_eq:
  "run_callbacks cbs k s =
     s\<lparr>world := callbacks_world cbs (state s) (world s),
       trace := trace s @ callback_events cbs k (state s) (world s)\<rparr>"
proof (induction cbs arbitrary: k s)
  case Nil
  show ?case by (simp add: callbacks_world_def)
next
  case (Cons cb cbs)
  show ?case
    by (simp add: Cons.IH callbacks_world_def emit_def getState_def Let_def
          split: prod.split option.split)
qed

lemma expire_eq:
  "expire s =
     s\<lparr>state := expired (state s), intervalId := None, active := released s,
       pipelines := pipelines s @ [AwaitPause],
       world := callbacks_world (onExpireCallbacks s) (expired (state s)) (world s),
       trace := trace s @ Console Expired # cleared s @
                callback_events (onExpireCallbacks s) 0 (expired (state s)) (world s) @
                [PauseMedia (length (pipelines s))]\<rparr>"
  by (simp add: expire_def Let_def run_callbacks_eq clearInterval_def emit_def expired_def
        cleared_def released_def split: option.split)











lemma tick_eq:
  "tick s =
     (if \<not> isRunning (state s) then s
      else if le (js_minus (remainingSeconds (state s)) (Fin 1)) (Fin 0)
        then expire (decremented s)
        else decremented s)"
  by (simp add: tick_def Let_def decremented_def)

lemma decremented_fields:
  "isRunning (state (decremented s)) = isRunning (state s)"
  "totalSeconds (state (decremented s)) = totalSeconds (state s)"
  "startedAt (state (decremented s)) = startedAt (state s)"
  "remainingSeconds (state (decremented s)) = js_minus (remainingSeconds (state s)) (Fin 1)"
  "intervalId (decremented s) = intervalId s"
  "onExpireCallbacks (decremented s) = onExpireCallbacks s"
  "active (decremented s) = active s"
  "nextHandle (decremented s) = nextHandle s"
  "pipelines (decremented s) = pipelines s"
  "clock (decremented s) = clock s"
  "world (decremented s) = world s"
  "trace (decremented s) = trace s"
  by (simp_all add: decremented_def)

section \<open>Every run of the expiry sequence calls out in order, once\<close>














lemma pipeline_step_fields:
  "state (pauseResolved k r s) = state s"
  "state (settleElapsed k s) = state s"
  "state (suspendResolved k r s) = state s"
  "intervalId (pauseResolved k r s) = intervalId s"
  "intervalId (settleElapsed k s) = intervalId s"
  "intervalId (suspendResolved k r s) = intervalId s"
  "active (pauseResolved k r s) = active s"
  "active (settleElapsed k s) = active s"
  "active (suspendResolved k r s) = active s"
  "clock (pauseResolved k r s) = clock s"
  "clock (settleElapsed k s) = clock s"
  "clock (suspendResolved k r s) = clock s"
  "length (pipelines (pauseResolved k r s)) = length (pipelines s)"
  "length (pipelines (settleElapsed k s)) = length (pipelines s)"
  "length (pipelines (suspendResolved k r s)) = length (pipelines s)"
  by (simp_all add: pauseResolved_def settleElapsed_def suspendResolved_def setTimeout_def
        emit_def Let_def split: option.split)

subsection \<open>One tick source\<close>

lemma one_source_initial: "one_source (initial w)"
  by (simp add: one_source_def initial_def idle_def)

lemma one_source_step: "one_source s \<Longrightarrow> one_source (step a s)"
proof (cases a)
  case (Start m t)
  assume "one_source s"
  with Start show ?thesis
    by (simp add: one_source_def start_eq split: option.splits)
next
  case Cancel
  assume "one_source s"
  with Cancel show ?thesis
    by (simp add: one_source_def cancel_eq idle_def split: option.splits)
next
  case Tick
  assume "one_source s"
  with Tick show ?thesis
    by (simp add: one_source_def tick_eq expire_eq expired_def released_def
          decremented_fields split: option.splits)
next
  case (OnExpire cb)
  assume "one_source s"
  with OnExpire show ?thesis by (simp add: one_source_def onExpire_def)
qed (simp_all add: one_source_def pipeline_step_fields)

lemma one_source_run: "one_source s \<Longrightarrow> one_source (run acts s)"
  by (induction acts arbitrary: s) (simp_all add: one_source_step)

subsection \<open>The state invariant\<close>

lemma state_ok_idle: "state_ok idle"
  by (simp add: state_ok_def idle_def is_double_0)

lemma state_ok_start:
  "positive m \<Longrightarrow> state_ok (state (snd (start m t s)))"
  using start_total_ok [of m] by (simp add: state_ok_def start_eq held_le_self)

lemma state_ok_tick: "state_ok (state s) \<Longrightarrow> state_ok (state (tick s))"
proof (cases "isRunning (state s)")
  case False
  assume "state_ok (state s)"
  with False show ?thesis by (simp add: tick_eq)
next
  case True
  assume ok: "state_ok (state s)"
  then have "held (remainingSeconds (state s))"
    and "le (remainingSeconds (state s)) (totalSeconds (state s))"
    by (simp_all add: state_ok_def)
  from decrement_held [OF this] ok True show ?thesis
    by (auto simp add: state_ok_def tick_eq expire_eq expired_def idle_def decremented_fields
          is_double_0)
qed

lemma state_ok_step:
  "positive_start a \<Longrightarrow> state_ok (state s) \<Longrightarrow> state_ok (state (step a s))"
proof (cases a)
  case (Start m t)
  assume "positive_start a"
  with Start show ?thesis by (simp add: state_ok_start)
next
  case Cancel
  then show ?thesis by (simp add: cancel_eq state_ok_idle)
next
  case Tick
  assume "state_ok (state s)"
  with Tick show ?thesis by (simp add: state_ok_tick)
next
  case (OnExpire cb)
  assume "state_ok (state s)"
  with OnExpire show ?thesis by (simp add: onExpire_def)
qed (simp_all add: pipeline_step_fields)

lemma state_ok_run:
  "list_all positive_start acts \<Longrightarrow> state_ok (state s) \<Longrightarrow> state_ok (state (run acts s))"
  by (induction acts arbitrary: s) (simp_all add: state_ok_step)

subsection \<open>While nothing restarts the timer\<close>



lemma frozen_step:
  "\<not> is_start a \<Longrightarrow> \<not> is_cancel a \<Longrightarrow> \<not> isRunning (state s) \<Longrightarrow>
   state (step a s) = state s"
  by (cases a) (simp_all add: tick_eq onExpire_def pipeline_step_fields)

lemma frozen_run:
  "list_all (\<lambda>a. \<not> is_start a \<and> \<not> is_cancel a) acts \<Longrightarrow> \<not> isRunning (state s) \<Longrightarrow>
   state (run acts s) = state s"
proof (induction acts arbitrary: s)
  case Nil
  then show ?case by simp
next
  case (Cons a acts)
  from Cons.prems have a: "\<not> is_start a" "\<not> is_cancel a"
    and rest: "list_all (\<lambda>a. \<not> is_start a \<and> \<not> is_cancel a) acts"
    by simp_all
  have same: "state (step a s) = state s"
    using a Cons.prems(2) by (rule frozen_step)
  with Cons.prems(2) have "\<not> isRunning (state (step a s))" by simp
  from Cons.IH [OF rest this] same show ?case by simp
qed

subsection \<open>Ticks that do not expire\<close>

lemma ticks_count_down:
  "isRunning (state s) \<Longrightarrow> remainingSeconds (state s) = Fin (of_int T) \<Longrightarrow>
   int n < T \<Longrightarrow> T \<le> 2 ^ 53 \<Longrightarrow>
   run (replicate n Tick) s =
     s\<lparr>state := (state s)\<lparr>remainingSeconds := Fin (of_int (T - int n))\<rparr>\<rparr>"
proof (induction n arbitrary: s T)
  case 0
  then show ?case by simp
next
  case (Suc n)
  let ?s1 = "s\<lparr>state := (state s)\<lparr>remainingSeconds := Fin (of_int (T - 1))\<rparr>\<rparr>"
  from Suc.prems have "\<bar>T - 1\<bar> \<le> 2 ^ 53" by simp
  then have dec: "js_minus (Fin (of_int T)) (Fin 1) = Fin (of_int (T - 1))"
    by (rule decrement_of_int)
  from Suc.prems have pos: "\<not> T - 1 \<le> 0" by simp
  from Suc.prems dec pos have one: "tick s = ?s1"
    by (simp add: tick_eq decremented_def)
  from Suc.prems have "isRunning (state ?s1)"
    "remainingSeconds (state ?s1) = Fin (of_int (T - 1))" "int n < T - 1" "T - 1 \<le> 2 ^ 53"
    by simp_all
  from Suc.IH [OF this] one show ?case by (simp add: algebra_simps)
qed

subsection \<open>The clock and the settle timeout\<close>







section \<open>Some literals and products, rounded\<close>

text \<open>
  \<open>round64 q\<close> is the number that the literal or the quotient \<open>q\<close> denotes in the
  program text of a caller: \<^verbatim>\<open>8.2\<close> is \<open>round64 (41 / 5)\<close>, \<^verbatim>\<open>1/60\<close> is
  \<open>round64 (1 / 60)\<close>.
\<close>

lemma lit_sixtieth: "round64 (1 / 60) = Fin (2 powi (- 58) * of_int 4803839602528529)"
  by (rule round64_eval(1)) (simp_all add: overflow_def)

lemma positive_sixtieth: "positive (round64 (1 / 60))"
  by (simp add: lit_sixtieth)

lemma total_sixtieth: "js_floor (js_times (round64 (1 / 60)) (Fin 60)) = Fin 1"
proof -
  have prod: "round64 (2 powi (- 58) * of_int 4803839602528529 * 60) =
      Fin (2 powi (- 53) * of_int 9007199254740992)"
    by (rule round64_eval(1)) (simp_all add: overflow_def)
  show ?thesis
    unfolding lit_sixtieth js_times_Fin prod by simp
qed

lemma lit_120th: "round64 (1 / 120) = Fin (2 powi (- 59) * of_int 4803839602528529)"
  by (rule round64_eval(1)) (simp_all add: overflow_def)

lemma positive_120th: "positive (round64 (1 / 120))"
  by (simp add: lit_120th)

lemma total_120th: "js_floor (js_times (round64 (1 / 120)) (Fin 60)) = Fin 0"
proof -
  have prod: "round64 (2 powi (- 59) * of_int 4803839602528529 * 60) =
      Fin (2 powi (- 54) * of_int 9007199254740992)"
    by (rule round64_eval(1)) (simp_all add: overflow_def)
  show ?thesis
    unfolding lit_120th js_times_Fin prod by (simp add: floor_eq_iff)
qed

lemma lit_8_2: "round64 (41 / 5) = Fin (2 powi (- 49) * of_int 4616189618054758)"
  by (rule round64_eval(1)) (simp_all add: overflow_def)

lemma total_8_2: "js_floor (js_times (round64 (41 / 5)) (Fin 60)) = Fin 491"
proof -
  have prod: "round64 (2 powi (- 49) * of_int 4616189618054758 * 60) =
      Fin (2 powi (- 44) * of_int 8655355533852671)"
    by (rule round64_eval(1)) (simp_all add: overflow_def)
  show ?thesis
    unfolding lit_8_2 js_times_Fin prod by (simp add: floor_eq_iff)
qed

lemma lit_0_7: "round64 (7 / 10) = Fin (3152519739159347 / 2 ^ 52)"
proof -
  have "round64 (7 / 10) = Fin (2 powi (- 53) * of_int 6305039478318694)"
    by (rule round64_eval(1)) (simp_all add: overflow_def)
  then show ?thesis by simp
qed

lemma total_0_7: "js_floor (js_times (Fin (3152519739159347 / 2 ^ 52)) (Fin 60)) = Fin 42"
proof -
  have prod: "round64 (3152519739159347 / 2 ^ 52 * 60) =
      Fin (2 powi (- 47) * of_int 5910974510923776)"
    by (rule round64_eval(1)) (simp_all add: overflow_def)
  show ?thesis
    unfolding js_times_Fin prod by simp
qed

lemma lit_minus_4_15:
  "round64 (- (83 / 20)) = Fin (- (2 powi (- 50) * of_int 4672484613396890))"
  by (rule round64_eval(2)) (simp_all add: overflow_def)

lemma total_minus_4_15: "js_floor (js_times (round64 (- (83 / 20))) (Fin 60)) = Fin (- 250)"
proof -
  have "round64 (- (2 powi (- 50) * of_int 4672484613396890 * 60)) =
      Fin (- (2 powi (- 45) * of_int 8760908650119169))"
    by (rule round64_eval(2)) (simp_all add: overflow_def)
  then have prod: "round64 (- (2 powi (- 50) * of_int 4672484613396890) * 60) =
      Fin (- (2 powi (- 45) * of_int 8760908650119169))"
    by simp
  have fl: "\<lfloor>- (8760908650119169 / 35184372088832 :: rat)\<rfloor> = - 250"
    by (simp add: floor_eq_iff)
  show ?thesis
    unfolding lit_minus_4_15 js_times_Fin prod by (simp add: fl)
qed

lemma lit_minus_0_1: "round64 (- (1 / 10)) = Fin (- (3602879701896397 / 2 ^ 55))"
proof -
  have "round64 (- (1 / 10)) = Fin (- (2 powi (- 56) * of_int 7205759403792794))"
    by (rule round64_eval(2)) (simp_all add: overflow_def)
  then show ?thesis by simp
qed

lemma total_minus_0_1:
  "js_floor (js_times (Fin (- (3602879701896397 / 2 ^ 55))) (Fin 60)) = Fin (- 6)"
proof -
  have "round64 (- (3602879701896397 / 2 ^ 55 * 60)) =
      Fin (- (2 powi (- 50) * of_int 6755399441055744))"
    by (rule round64_eval(2)) (simp_all add: overflow_def)
  then have prod: "round64 (- (3602879701896397 / 2 ^ 55) * 60) =
      Fin (- (2 powi (- 50) * of_int 6755399441055744))"
    by simp
  show ?thesis
    unfolding js_times_Fin prod by simp
qed

lemma total_2_53: "js_floor (js_times (Fin (2 ^ 53)) (Fin 60)) = Fin 540431955284459520"
proof -
  have prod: "round64 (2 ^ 53 * 60) = Fin (2 powi 6 * of_int 8444249301319680)"
    by (rule round64_eval(1)) (simp_all add: overflow_def)
  show ?thesis
    unfolding js_times_Fin prod by simp
qed

lemma decrement_2_53_60:
  "js_minus (Fin 540431955284459520) (Fin 1) = Fin 540431955284459520"
proof -
  have "round64 (540431955284459520 - 1) = Fin (2 powi 6 * of_int 8444249301319680)"
    by (rule round64_eval(1)) (simp_all add: overflow_def)
  then show ?thesis
    unfolding js_minus_Fin by simp
qed

lemma total_whole:
  assumes "\<bar>n * 60\<bar> \<le> 2 ^ 53"
  shows "js_floor (js_times (Fin (of_int n)) (Fin 60)) = Fin (of_int (n * 60))"
  using round64_of_int [OF assms] by (simp add: js_times_Fin)

lemma total_numeral:
  "(numeral n * 60 :: int) \<le> 2 ^ 53 \<Longrightarrow>
   js_floor (js_times (Fin (numeral n)) (Fin 60)) = Fin (numeral n * 60)"
  using total_whole [of "numeral n"] by simp


section \<open>The callback loop and the collaborator calls\<close>











lemma start_total:
  "totalSeconds (fst (start m now s)) = js_floor (js_times m (Fin 60))"
  by (simp add: start_fst start_eq)



lemma one_source_reached: "one_source (run acts (initial w))"
  by (simp add: one_source_run one_source_initial)



section \<open>The claims\<close>

lemmas eval_simps =
  initial_def idle_def start_eq cancel_eq tick_eq expire_eq expired_def cleared_def
  released_def callbacks_world_def onExpire_def pauseResolved_def settleElapsed_def
  suspendResolved_def setTimeout_def due_def waiting_def emit_def Let_def decremented_def
  js_minus_Fin round64_numeral round64_0 round64_1 round64_minus_1 total_numeral
  total_sixtieth


subsection \<open>C1: the invariant of the reachable states\<close>

text \<open>
  After \<^verbatim>\<open>start(1/60)\<close> and one tick the countdown has expired naturally: the timer
  is not running, yet \<open>totalSeconds\<close> is still 1 and \<open>startedAt\<close> is still set,
  because \<^verbatim>\<open>expire\<close> assigns only \<open>isRunning\<close> and \<open>remainingSeconds\<close>. So
  "not running implies the canonical idle form" fails in a reachable state.
\<close>

theorem idle_form_counterexample:
  "positive_start (Start (round64 (1 / 60)) 0 :: unit action) \<and>
   \<not> isRunning (state (run [Start (round64 (1 / 60)) 0, Tick] (initial ()))) \<and>
   totalSeconds (state (run [Start (round64 (1 / 60)) 0, Tick] (initial ()))) = Fin 1 \<and>
   startedAt (state (run [Start (round64 (1 / 60)) 0, Tick] (initial ()))) = Some 0 \<and>
   \<not> (\<not> isRunning (state (run [Start (round64 (1 / 60)) 0, Tick] (initial ()))) \<longrightarrow>
        remainingSeconds (state (run [Start (round64 (1 / 60)) 0, Tick] (initial ()))) = Fin 0 \<and>
        totalSeconds (state (run [Start (round64 (1 / 60)) 0, Tick] (initial ()))) = Fin 0 \<and>
        startedAt (state (run [Start (round64 (1 / 60)) 0, Tick] (initial ()))) = None)"
  by (simp add: eval_simps positive_sixtieth)

text \<open>
  C1, as the code has it. In every state reached from the initial idle state by any
  sequence of actions whose \<open>start\<close> calls are given positive minutes,
  \<open>remainingSeconds \<le> totalSeconds\<close>, a timer that is not running has
  \<open>remainingSeconds = 0\<close>, and the whole canonical idle form holds whenever
  \<open>startedAt\<close> is absent (initially and after \<open>cancel\<close>; after a natural expiry
  \<open>totalSeconds\<close> and \<open>startedAt\<close> keep the values of the expired countdown).
\<close>

theorem reachable_state_invariant:
  assumes "list_all positive_start acts" and "s = run acts (initial w)"
  shows "le (remainingSeconds (state s)) (totalSeconds (state s)) \<and>
         (\<not> isRunning (state s) \<longrightarrow> remainingSeconds (state s) = Fin 0) \<and>
         (startedAt (state s) = None \<longrightarrow> state s = idle)"
proof -
  have "state_ok (state (initial w))"
    by (simp add: initial_def state_ok_idle)
  with assms have "state_ok (state s)"
    by (simp add: state_ok_run)
  then show ?thesis
    by (simp add: state_ok_def)
qed

theorem reachable_state_invariant_witness:
  "list_all positive_start
     [Start (Fin 5) 0, Tick, Cancel, Start (round64 (1 / 60)) 9, Tick :: unit action] \<and>
   le (remainingSeconds (state (run [Start (Fin 5) 0, Tick, Cancel, Start (round64 (1 / 60)) 9, Tick] (initial ()))))
      (totalSeconds (state (run [Start (Fin 5) 0, Tick, Cancel, Start (round64 (1 / 60)) 9, Tick] (initial ())))) \<and>
   \<not> isRunning (state (run [Start (Fin 5) 0, Tick, Cancel, Start (round64 (1 / 60)) 9, Tick] (initial ()))) \<and>
   remainingSeconds (state (run [Start (Fin 5) 0, Tick, Cancel, Start (round64 (1 / 60)) 9, Tick] (initial ()))) = Fin 0 \<and>
   startedAt (state (run [Start (Fin 5) 0, Tick, Cancel] (initial ()))) = None \<and>
   state (run [Start (Fin 5) 0, Tick, Cancel] (initial ())) = idle"
proof -
  have a: "list_all positive_start
      [Start (Fin 5) 0, Tick, Cancel, Start (round64 (1 / 60)) 9, Tick :: unit action]"
    by (simp add: positive_sixtieth)
  have b: "list_all positive_start [Start (Fin 5) 0, Tick, Cancel :: unit action]"
    by simp
  have c: "\<not> isRunning (state (run [Start (Fin 5) 0, Tick, Cancel, Start (round64 (1 / 60)) 9, Tick] (initial ())))"
    by (simp add: eval_simps)
  have d: "startedAt (state (run [Start (Fin 5) 0, Tick, Cancel] (initial ()))) = None"
    by (simp add: eval_simps)
  from reachable_state_invariant [OF a refl, of "()"] reachable_state_invariant [OF b refl, of "()"]
    a c d
  show ?thesis by (simp add: eval_simps)
qed

subsection \<open>C2: the expiry sequence\<close>




subsection \<open>C3: start with a positive duration\<close>

text \<open>
  A caller that writes \<^verbatim>\<open>start(8.2)\<close> gets \<open>totalSeconds = 491\<close>, not
  \<open>\<lfloor>8.2 * 60\<rfloor> = 492\<close>: the literal is a binary64 value slightly below 8.2 and the
  product is rounded before the floor. Reading \<open>minutes\<close> as the exact value passed
  does not restore the equation either: for the binary64 value of \<^verbatim>\<open>0.7\<close> the
  product rounds up to 42 while the floor of the exact product is 41.
\<close>

theorem start_floor_counterexample:
  "positive (round64 (41 / 5)) \<and>
   totalSeconds (fst (start (round64 (41 / 5)) 0 (initial ()))) = Fin 491 \<and>
   \<lfloor>(41 / 5 :: rat) * 60\<rfloor> = 492 \<and>
   round64 (7 / 10) = Fin (3152519739159347 / 2 ^ 52) \<and>
   totalSeconds (fst (start (Fin (3152519739159347 / 2 ^ 52)) 0 (initial ()))) = Fin 42 \<and>
   \<lfloor>(3152519739159347 / 2 ^ 52 :: rat) * 60\<rfloor> = 41"
proof -
  have "positive (round64 (41 / 5))"
    by (simp add: lit_8_2)
  moreover have "totalSeconds (fst (start (round64 (41 / 5)) 0 (initial ()))) = Fin 491"
    unfolding start_fst start_eq total_8_2 by simp
  moreover have "\<lfloor>(41 / 5 :: rat) * 60\<rfloor> = 492"
    by simp
  moreover have "totalSeconds (fst (start (Fin (3152519739159347 / 2 ^ 52)) 0 (initial ()))) = Fin 42"
    unfolding start_fst start_eq total_0_7 by simp
  moreover have "\<lfloor>(3152519739159347 / 2 ^ 52 :: rat) * 60\<rfloor> = 41"
    by (simp add: floor_eq_iff)
  ultimately show ?thesis
    using lit_0_7 by blast
qed

text \<open>
  C3, as the code has it. For every positive number of minutes, \<open>start\<close> returns the
  snapshot with \<open>isRunning = True\<close>, \<open>startedAt\<close> the current time and
  \<open>totalSeconds = remainingSeconds\<close> the floor of the binary64 product
  \<open>minutes * 60\<close>, which is also the state it leaves in the engine; \<open>start\<close> has no
  failing branch. That count is never negative. It is \<open>\<lfloor>minutes * 60\<rfloor>\<close> whenever the
  exact product is a binary64 value, as for every whole number of minutes up to
  \<open>2 ^ 53 / 60\<close>; otherwise, for products up to \<open>2 ^ 53\<close>, it is \<open>\<lfloor>minutes * 60\<rfloor>\<close>
  or one more, \<open>minutes\<close> being the binary64 value passed. In particular
  \<^verbatim>\<open>start(5)\<close> gives 300 and 300.
\<close>

theorem start_positive:
  assumes "positive minutes"
  shows "fst (start minutes now s) =
           \<lparr>isRunning = True, remainingSeconds = js_floor (js_times minutes (Fin 60)),
            totalSeconds = js_floor (js_times minutes (Fin 60)), startedAt = Some now\<rparr> \<and>
         getState (snd (start minutes now s)) = fst (start minutes now s) \<and>
         le (Fin 0) (totalSeconds (fst (start minutes now s))) \<and>
         (minutes = Fin x \<and> is_double (x * 60) \<longrightarrow>
            totalSeconds (fst (start minutes now s)) = Fin (of_int \<lfloor>x * 60\<rfloor>)) \<and>
         (minutes = Fin x \<and> x * 60 \<le> 2 ^ 53 \<longrightarrow>
            totalSeconds (fst (start minutes now s)) = Fin (of_int \<lfloor>x * 60\<rfloor>) \<or>
            totalSeconds (fst (start minutes now s)) = Fin (of_int (\<lfloor>x * 60\<rfloor> + 1))) \<and>
         (0 < n \<and> n * 60 \<le> 2 ^ 53 \<longrightarrow>
            totalSeconds (fst (start (Fin (of_int n)) now s)) = Fin (of_int (n * 60))) \<and>
         totalSeconds (fst (start (Fin 5) now s)) = Fin 300 \<and>
         remainingSeconds (fst (start (Fin 5) now s)) = Fin 300"
proof -
  have shape: "fst (start minutes now s) =
           \<lparr>isRunning = True, remainingSeconds = js_floor (js_times minutes (Fin 60)),
            totalSeconds = js_floor (js_times minutes (Fin 60)), startedAt = Some now\<rparr>"
    and same: "getState (snd (start minutes now s)) = fst (start minutes now s)"
    by (simp_all add: start_fst start_eq getState_def)
  from start_total_ok [OF assms]
  have nonneg: "le (Fin 0) (totalSeconds (fst (start minutes now s)))"
    by (simp add: shape)
  have exact: "totalSeconds (fst (start minutes now s)) = Fin (of_int \<lfloor>x * 60\<rfloor>)"
    if "minutes = Fin x" "is_double (x * 60)"
    using that by (simp add: start_total js_times_Fin floor_exact)
  have near: "totalSeconds (fst (start minutes now s)) = Fin (of_int \<lfloor>x * 60\<rfloor>) \<or>
      totalSeconds (fst (start minutes now s)) = Fin (of_int (\<lfloor>x * 60\<rfloor> + 1))"
    if "minutes = Fin x" "x * 60 \<le> 2 ^ 53"
  proof -
    from assms that have "\<bar>x * 60\<bar> \<le> 2 ^ 53" by simp
    from floor_round64 [OF this] that(1) show ?thesis
      by (simp add: start_total js_times_Fin)
  qed
  have whole: "totalSeconds (fst (start (Fin (of_int n)) now s)) = Fin (of_int (n * 60))"
    if "0 < n" "n * 60 \<le> 2 ^ 53"
  proof -
    from that have "\<bar>n * 60\<bar> \<le> 2 ^ 53" by simp
    from total_whole [OF this] show ?thesis
      by (simp add: start_fst start_eq)
  qed
  have five: "totalSeconds (fst (start (Fin 5) now s)) = Fin 300"
    "remainingSeconds (fst (start (Fin 5) now s)) = Fin 300"
    by (simp_all add: start_fst start_eq total_numeral)
  from shape same nonneg exact near whole five show ?thesis by blast
qed

theorem start_positive_witness:
  "positive (Fin 5) \<and> is_double (5 * 60) \<and> (5::rat) * 60 \<le> 2 ^ 53 \<and>
   (0::int) < 5 \<and> (5::int) * 60 \<le> 2 ^ 53 \<and>
   fst (start (Fin 5) 1000 (initial ())) =
     \<lparr>isRunning = True, remainingSeconds = Fin 300, totalSeconds = Fin 300,
      startedAt = Some 1000\<rparr>"
proof -
  have pos: "positive (Fin 5)" by simp
  have dbl: "is_double (5 * 60)"
    using is_double_of_int [of 300] by simp
  from start_positive [OF pos, of 1000 "initial ()" 5 5] pos dbl show ?thesis
    by (simp add: total_numeral)
qed

subsection \<open>C4: start replaces a countdown that has not ticked\<close>

text \<open>
  C4. In a state reached from the initial one, \<open>start a\<close> followed at once by
  \<open>start b\<close> returns the snapshot a single \<open>start b\<close> returns and leaves the same
  timer state, callbacks, expiry runs and world. Exactly one interval handle is active
  afterwards, the one the engine holds, because the second \<open>start\<close> clears the handle
  of the first before it sets its own. \<^verbatim>\<open>start(10)\<close> then \<^verbatim>\<open>start(5)\<close> gives
  \<open>totalSeconds = remainingSeconds = 300\<close>.
\<close>

theorem start_replaces_start:
  assumes reach: "s = run pre (initial w)"
  shows "fst (start b t2 (snd (start a t1 s))) = fst (start b t2 s) \<and>
    state (snd (start b t2 (snd (start a t1 s)))) = state (snd (start b t2 s)) \<and>
    onExpireCallbacks (snd (start b t2 (snd (start a t1 s)))) = onExpireCallbacks (snd (start b t2 s)) \<and>
    pipelines (snd (start b t2 (snd (start a t1 s)))) = pipelines (snd (start b t2 s)) \<and>
    world (snd (start b t2 (snd (start a t1 s)))) = world (snd (start b t2 s)) \<and>
    intervalId (snd (start b t2 (snd (start a t1 s)))) = Some (Suc (nextHandle s)) \<and>
    active (snd (start b t2 (snd (start a t1 s)))) = [Suc (nextHandle s)] \<and>
    trace (snd (start b t2 (snd (start a t1 s)))) =
      trace s @ cleared s @
      [SetInterval (nextHandle s) 1000, Console (Started a (js_floor (js_times a (Fin 60)))),
       ClearInterval (nextHandle s),
       SetInterval (Suc (nextHandle s)) 1000,
       Console (Started b (js_floor (js_times b (Fin 60))))] \<and>
    totalSeconds (fst (start (Fin 5) t2 (snd (start (Fin 10) t1 s)))) = Fin 300 \<and>
    remainingSeconds (fst (start (Fin 5) t2 (snd (start (Fin 10) t1 s)))) = Fin 300"
proof -
  have "one_source s"
    by (simp add: reach one_source_reached)
  then have src: "active s = (case intervalId s of None \<Rightarrow> [] | Some h \<Rightarrow> [h])"
    by (simp add: one_source_def)
  show ?thesis
    by (simp add: start_fst start_eq cleared_def src total_numeral split: option.split)
qed

theorem start_replaces_start_witness:
  "state (snd (start (Fin 5) 2000 (snd (start (Fin 10) 1000 (run [Start (Fin 3) 0, Tick] (initial ())))))) =
     \<lparr>isRunning = True, remainingSeconds = Fin 300, totalSeconds = Fin 300,
      startedAt = Some 2000\<rparr> \<and>
   active (snd (start (Fin 5) 2000 (snd (start (Fin 10) 1000 (run [Start (Fin 3) 0, Tick] (initial ())))))) = [3] \<and>
   intervalId (snd (start (Fin 5) 2000 (snd (start (Fin 10) 1000 (run [Start (Fin 3) 0, Tick] (initial ())))))) = Some 3 \<and>
   trace (snd (start (Fin 5) 2000 (snd (start (Fin 10) 1000 (run [Start (Fin 3) 0, Tick] (initial ())))))) =
     [SetInterval 1 1000, Console (Started (Fin 3) (Fin 180)),
      ClearInterval 1, SetInterval 2 1000, Console (Started (Fin 10) (Fin 600)),
      ClearInterval 2, SetInterval 3 1000, Console (Started (Fin 5) (Fin 300))]"
  using start_replaces_start [OF refl, of "Fin 5" 2000 "Fin 10" 1000 "[Start (Fin 3) 0, Tick]" "()"]
  by (simp add: eval_simps)

subsection \<open>C5: a callback that throws\<close>



subsection \<open>C6: cancel\<close>

text \<open>
  C6. \<open>cancel\<close> always returns the canonical idle state and leaves it in the engine
  with no interval handle. A second \<open>cancel\<close>, or a \<open>cancel\<close> of the initial
  idle engine, returns the same state and changes nothing but the console (one more
  "Cancelled" line). The events \<open>cancel\<close> appends contain no call of
  \<^verbatim>\<open>pauseMedia\<close> or \<^verbatim>\<open>suspendSystem\<close>, and it starts no run of the expiry sequence.
\<close>

theorem cancel_idempotent:
  "fst (cancel s) = \<lparr>isRunning = False, remainingSeconds = Fin 0, totalSeconds = Fin 0,
                      startedAt = None\<rparr> \<and>
   state (snd (cancel s)) = fst (cancel s) \<and>
   intervalId (snd (cancel s)) = None \<and>
   fst (cancel (snd (cancel s))) = fst (cancel s) \<and>
   snd (cancel (snd (cancel s))) = emit (Console Cancelled) (snd (cancel s)) \<and>
   snd (cancel (initial w)) = emit (Console Cancelled) (initial w) \<and>
   filter collaborator_call (drop (length (trace s)) (trace (snd (cancel s)))) = [] \<and>
   pipelines (snd (cancel s)) = pipelines s"
  by (simp add: cancel_fst cancel_eq idle_def emit_def initial_def split: option.split)

theorem cancel_idempotent_witness:
  "fst (cancel (run [Start (Fin 5) 0, Tick] (initial ()))) = idle \<and>
   fst (cancel (snd (cancel (run [Start (Fin 5) 0, Tick] (initial ()))))) = idle \<and>
   trace (snd (cancel (snd (cancel (run [Start (Fin 5) 0, Tick] (initial ())))))) =
     [SetInterval 1 1000, Console (Started (Fin 5) (Fin 300)), ClearInterval 1,
      Console Cancelled, Console Cancelled]"
proof -
  let ?s = "run [Start (Fin 5) 0, Tick] (initial ())"
  from cancel_idempotent [of ?s "()"]
  have first: "fst (cancel ?s) =
      \<lparr>isRunning = False, remainingSeconds = Fin 0, totalSeconds = Fin 0, startedAt = None\<rparr>"
    and second: "fst (cancel (snd (cancel ?s))) = fst (cancel ?s)"
    and again: "snd (cancel (snd (cancel ?s))) = emit (Console Cancelled) (snd (cancel ?s))"
    by blast+
  have once: "trace (snd (cancel ?s)) =
      [SetInterval 1 1000, Console (Started (Fin 5) (Fin 300)), ClearInterval 1,
       Console Cancelled]"
    by (simp add: eval_simps)
  have "trace (snd (cancel (snd (cancel ?s)))) = trace (snd (cancel ?s)) @ [Console Cancelled]"
    unfolding again by (simp add: emit_def)
  with once have twice: "trace (snd (cancel (snd (cancel ?s)))) =
      [SetInterval 1 1000, Console (Started (Fin 5) (Fin 300)), ClearInterval 1,
       Console Cancelled, Console Cancelled]"
    by simp
  from first second have "fst (cancel ?s) = idle" "fst (cancel (snd (cancel ?s))) = idle"
    by (simp_all add: idle_def)
  with twice show ?thesis by blast
qed


subsection \<open>C7: a tick while running\<close>

text \<open>
  After \<^verbatim>\<open>start(2 ** 53)\<close> the timer runs with \<open>remainingSeconds = 2 ^ 53 * 60\<close>, and
  a tick leaves that value as it is: the binary64 values of this size are 64 apart, and
  the difference rounds back. So a tick does not always subtract one.
\<close>

theorem tick_decrement_counterexample:
  "positive_start (Start (Fin (2 ^ 53)) 0 :: unit action) \<and>
   isRunning (state (run [Start (Fin (2 ^ 53)) 0] (initial ()))) \<and>
   remainingSeconds (state (run [Start (Fin (2 ^ 53)) 0] (initial ()))) = Fin 540431955284459520 \<and>
   isRunning (state (run [Start (Fin (2 ^ 53)) 0, Tick] (initial ()))) \<and>
   remainingSeconds (state (run [Start (Fin (2 ^ 53)) 0, Tick] (initial ()))) = Fin 540431955284459520"
proof -
  have started: "state (snd (start (Fin (2 ^ 53)) 0 (initial ()))) =
      \<lparr>isRunning = True, remainingSeconds = Fin 540431955284459520,
       totalSeconds = Fin 540431955284459520, startedAt = Some 0\<rparr>"
    unfolding start_eq total_2_53 by simp
  have "state (tick (snd (start (Fin (2 ^ 53)) 0 (initial ())))) =
      \<lparr>isRunning = True, remainingSeconds = Fin 540431955284459520,
       totalSeconds = Fin 540431955284459520, startedAt = Some 0\<rparr>"
    unfolding tick_eq decremented_def started by (simp add: decrement_2_53_60)
  with started show ?thesis by simp
qed

text \<open>
  C7, as the code has it. A tick of a running timer replaces \<open>remainingSeconds\<close> by
  the binary64 difference \<open>remainingSeconds - 1\<close>. If the result is not \<open>\<le> 0\<close>
  nothing else changes; if it is, the expiry sequence runs on the decremented state; a
  new run of the sequence begins exactly in that case. The difference is exactly one less
  whenever the count is a whole number \<open>k\<close> with \<open>\<bar>k - 1\<bar> \<le> 2 ^ 53\<close>. So when
  \<open>start\<close> has set a whole count \<open>T \<le> 2 ^ 53\<close>, \<open>n < T\<close> ticks leave
  \<open>remainingSeconds = T - n\<close> on a running timer, and ten ticks after
  \<^verbatim>\<open>start(1)\<close> leave 50.
\<close>

theorem tick_counts_down:
  assumes running: "isRunning (state s)"
  shows "(\<not> le (js_minus (remainingSeconds (state s)) (Fin 1)) (Fin 0) \<longrightarrow>
      tick s = s\<lparr>state := (state s)
                 \<lparr>remainingSeconds := js_minus (remainingSeconds (state s)) (Fin 1)\<rparr>\<rparr>) \<and>
    (le (js_minus (remainingSeconds (state s)) (Fin 1)) (Fin 0) \<longrightarrow>
      tick s = expire (s\<lparr>state := (state s)
                 \<lparr>remainingSeconds := js_minus (remainingSeconds (state s)) (Fin 1)\<rparr>\<rparr>)) \<and>
    (length (pipelines (tick s)) = Suc (length (pipelines s))) =
      le (js_minus (remainingSeconds (state s)) (Fin 1)) (Fin 0) \<and>
    (remainingSeconds (state s) = Fin (of_int k) \<and> \<bar>k - 1\<bar> \<le> 2 ^ 53 \<longrightarrow>
      js_minus (remainingSeconds (state s)) (Fin 1) = Fin (of_int (k - 1))) \<and>
    (totalSeconds (fst (start m now s0)) = Fin (of_int T) \<and> int n < T \<and> T \<le> 2 ^ 53 \<longrightarrow>
      remainingSeconds (state (run (Start m now # replicate n Tick) s0)) = Fin (of_int (T - int n)) \<and>
      isRunning (state (run (Start m now # replicate n Tick) s0))) \<and>
    remainingSeconds (state (run (Start (Fin 1) now # replicate 10 Tick) s0)) = Fin 50"
proof -
  have count: "remainingSeconds (state (run (Start m now # replicate n Tick) s0)) = Fin (of_int (T - int n)) \<and>
      isRunning (state (run (Start m now # replicate n Tick) s0))"
    if "totalSeconds (fst (start m now s0)) = Fin (of_int T)" "int n < T" "T \<le> 2 ^ 53"
    for m n T
  proof -
    from that(1) have total: "js_floor (js_times m (Fin 60)) = Fin (of_int T)"
      by (simp add: start_total)
    have "isRunning (state (snd (start m now s0)))"
      and "remainingSeconds (state (snd (start m now s0))) = Fin (of_int T)"
      by (simp_all add: start_eq total)
    from ticks_count_down [OF this that(2,3)] show ?thesis
      by (simp add: start_eq)
  qed
  have "totalSeconds (fst (start (Fin 1) now s0)) = Fin (of_int 60)"
    using total_whole [of 1] by (simp add: start_total)
  from count [OF this, of 10]
  have ten: "remainingSeconds (state (run (Start (Fin 1) now # replicate 10 Tick) s0)) = Fin 50"
    by simp
  from running have begun: "(length (pipelines (tick s)) = Suc (length (pipelines s))) =
      le (js_minus (remainingSeconds (state s)) (Fin 1)) (Fin 0)"
    by (simp add: tick_eq expire_eq decremented_fields)
  have whole: "js_minus (remainingSeconds (state s)) (Fin 1) = Fin (of_int (k - 1))"
    if "remainingSeconds (state s) = Fin (of_int k)" "\<bar>k - 1\<bar> \<le> 2 ^ 53"
    using that by (simp add: decrement_of_int)
  from running have stay: "tick s = s\<lparr>state := (state s)
                 \<lparr>remainingSeconds := js_minus (remainingSeconds (state s)) (Fin 1)\<rparr>\<rparr>"
    if "\<not> le (js_minus (remainingSeconds (state s)) (Fin 1)) (Fin 0)"
    using that by (simp add: tick_eq decremented_def)
  from running have go: "tick s = expire (s\<lparr>state := (state s)
                 \<lparr>remainingSeconds := js_minus (remainingSeconds (state s)) (Fin 1)\<rparr>\<rparr>)"
    if "le (js_minus (remainingSeconds (state s)) (Fin 1)) (Fin 0)"
    using that by (simp add: tick_eq decremented_def)
  from stay go begun whole count [of m T n] ten show ?thesis by blast
qed

theorem tick_counts_down_witness:
  "isRunning (state (snd (start (Fin 1) 0 (initial ())))) \<and>
   \<not> le (js_minus (remainingSeconds (state (snd (start (Fin 1) 0 (initial ()))))) (Fin 1)) (Fin 0) \<and>
   remainingSeconds (state (tick (snd (start (Fin 1) 0 (initial ()))))) = Fin 59 \<and>
   isRunning (state (snd (start (round64 (1 / 60)) 0 (initial ())))) \<and>
   le (js_minus (remainingSeconds (state (snd (start (round64 (1 / 60)) 0 (initial ()))))) (Fin 1)) (Fin 0) \<and>
   length (pipelines (tick (snd (start (round64 (1 / 60)) 0 (initial ()))))) = 1 \<and>
   totalSeconds (fst (start (Fin 1) 0 (initial ()))) = Fin (of_int 60) \<and>
   int 10 < 60 \<and> (60::int) \<le> 2 ^ 53 \<and>
   remainingSeconds (state (run (Start (Fin 1) 0 # replicate 10 Tick) (initial ()))) = Fin 50"
proof -
  have r1: "isRunning (state (snd (start (Fin 1) 0 (initial ()))))"
    by (simp add: eval_simps)
  have r2: "isRunning (state (snd (start (round64 (1 / 60)) 0 (initial ()))))"
    by (simp add: eval_simps)
  have rem1: "remainingSeconds (state (snd (start (Fin 1) 0 (initial ())))) = Fin (of_int 60)"
    using total_whole [of 1] by (simp add: start_eq)
  have far: "\<not> le (js_minus (remainingSeconds (state (snd (start (Fin 1) 0 (initial ()))))) (Fin 1)) (Fin 0)"
    unfolding rem1 by (simp add: js_minus_Fin round64_numeral)
  have near: "le (js_minus (remainingSeconds (state (snd (start (round64 (1 / 60)) 0 (initial ()))))) (Fin 1)) (Fin 0)"
    by (simp add: eval_simps)
  have len: "length (pipelines (snd (start (round64 (1 / 60)) 0 (initial ())))) = 0"
    by (simp add: eval_simps)
  have tot: "totalSeconds (fst (start (Fin 1) 0 (initial ()))) = Fin (of_int 60)"
    using total_whole [of 1] by (simp add: start_total)
  from tick_counts_down [OF r1, of 60 "Fin 1" 0 "initial ()" 60 10] far rem1 tot
  have a: "remainingSeconds (state (tick (snd (start (Fin 1) 0 (initial ()))))) = Fin 59"
    and c: "remainingSeconds (state (run (Start (Fin 1) 0 # replicate 10 Tick) (initial ()))) = Fin 50"
    by (simp_all add: js_minus_Fin round64_numeral)
  from tick_counts_down [OF r2, of 60 "Fin 1" 0 "initial ()" 60 10]
  have "(length (pipelines (tick (snd (start (round64 (1 / 60)) 0 (initial ()))))) =
           Suc (length (pipelines (snd (start (round64 (1 / 60)) 0 (initial ())))))) =
        le (js_minus (remainingSeconds (state (snd (start (round64 (1 / 60)) 0 (initial ()))))) (Fin 1)) (Fin 0)"
    by blast
  with near len
  have b: "length (pipelines (tick (snd (start (round64 (1 / 60)) 0 (initial ()))))) = 1"
    by simp
  from r1 r2 far near a b c tot show ?thesis by simp
qed

subsection \<open>C8: start with a non-positive duration\<close>

text \<open>
  A caller that writes \<^verbatim>\<open>start(-4.15)\<close> gets \<open>totalSeconds = - 250\<close>, not
  \<open>\<lfloor>- 4.15 * 60\<rfloor> = - 249\<close>; and for the binary64 value of \<^verbatim>\<open>-0.1\<close> the product
  rounds to \<open>- 6\<close> while the floor of the exact product is \<open>- 7\<close>.
\<close>

theorem start_non_positive_counterexample:
  "le (round64 (- (83 / 20))) (Fin 0) \<and>
   totalSeconds (fst (start (round64 (- (83 / 20))) 0 (initial ()))) = Fin (- 250) \<and>
   \<lfloor>(- (83 / 20) :: rat) * 60\<rfloor> = - 249 \<and>
   round64 (- (1 / 10)) = Fin (- (3602879701896397 / 2 ^ 55)) \<and>
   totalSeconds (fst (start (Fin (- (3602879701896397 / 2 ^ 55))) 0 (initial ()))) = Fin (- 6) \<and>
   \<lfloor>(- (3602879701896397 / 2 ^ 55) :: rat) * 60\<rfloor> = - 7"
proof -
  have "le (round64 (- (83 / 20))) (Fin 0)"
    by (simp add: lit_minus_4_15)
  moreover have "totalSeconds (fst (start (round64 (- (83 / 20))) 0 (initial ()))) = Fin (- 250)"
    unfolding start_total total_minus_4_15 by simp
  moreover have "\<lfloor>(- (83 / 20) :: rat) * 60\<rfloor> = - 249"
    by simp
  moreover have "totalSeconds (fst (start (Fin (- (3602879701896397 / 2 ^ 55))) 0 (initial ()))) = Fin (- 6)"
    unfolding start_total total_minus_0_1 by simp
  moreover have "\<lfloor>(- (3602879701896397 / 2 ^ 55) :: rat) * 60\<rfloor> = - 7"
    by (simp add: floor_eq_iff)
  ultimately show ?thesis
    using lit_minus_0_1 by blast
qed

text \<open>
  C8, as the code has it. \<open>start\<close> does not validate its argument: for every
  \<open>minutes \<le> 0\<close> it completes all the same, sets \<open>isRunning = True\<close> and sets
  \<open>totalSeconds\<close> to the floor of the binary64 product \<open>minutes * 60\<close>, which is then
  zero or negative. That count is \<open>\<lfloor>minutes * 60\<rfloor>\<close> whenever the exact product is a
  binary64 value (\<open>- 60\<close> for \<open>- 1\<close>); otherwise, for products down to \<open>- (2 ^ 53)\<close>,
  it is \<open>\<lfloor>minutes * 60\<rfloor>\<close> or one more, \<open>minutes\<close> being the binary64 value passed.
\<close>

theorem start_non_positive:
  assumes "le minutes (Fin 0)"
  shows "fst (start minutes now s) =
           \<lparr>isRunning = True, remainingSeconds = js_floor (js_times minutes (Fin 60)),
            totalSeconds = js_floor (js_times minutes (Fin 60)), startedAt = Some now\<rparr> \<and>
         state (snd (start minutes now s)) = fst (start minutes now s) \<and>
         le (totalSeconds (fst (start minutes now s))) (Fin 0) \<and>
         (minutes = Fin x \<and> is_double (x * 60) \<longrightarrow>
            totalSeconds (fst (start minutes now s)) = Fin (of_int \<lfloor>x * 60\<rfloor>)) \<and>
         (minutes = Fin x \<and> - (2 ^ 53) \<le> x * 60 \<longrightarrow>
            totalSeconds (fst (start minutes now s)) = Fin (of_int \<lfloor>x * 60\<rfloor>) \<or>
            totalSeconds (fst (start minutes now s)) = Fin (of_int (\<lfloor>x * 60\<rfloor> + 1))) \<and>
         totalSeconds (fst (start (Fin (- 1)) now s)) = Fin (- 60)"
proof -
  have shape: "fst (start minutes now s) =
           \<lparr>isRunning = True, remainingSeconds = js_floor (js_times minutes (Fin 60)),
            totalSeconds = js_floor (js_times minutes (Fin 60)), startedAt = Some now\<rparr>"
    and same: "state (snd (start minutes now s)) = fst (start minutes now s)"
    by (simp_all add: start_fst start_eq)
  from start_total_nonpos [OF assms]
  have nonpos: "le (totalSeconds (fst (start minutes now s))) (Fin 0)"
    by (simp add: start_total)
  have exact: "totalSeconds (fst (start minutes now s)) = Fin (of_int \<lfloor>x * 60\<rfloor>)"
    if "minutes = Fin x" "is_double (x * 60)"
    using that by (simp add: start_total js_times_Fin floor_exact)
  have near: "totalSeconds (fst (start minutes now s)) = Fin (of_int \<lfloor>x * 60\<rfloor>) \<or>
      totalSeconds (fst (start minutes now s)) = Fin (of_int (\<lfloor>x * 60\<rfloor> + 1))"
    if "minutes = Fin x" "- (2 ^ 53) \<le> x * 60"
  proof -
    from assms that have "\<bar>x * 60\<bar> \<le> 2 ^ 53" by simp
    from floor_round64 [OF this] that(1) show ?thesis
      by (simp add: start_total js_times_Fin)
  qed
  have one: "totalSeconds (fst (start (Fin (- 1)) now s)) = Fin (- 60)"
    using total_whole [of "- 1"] by (simp add: start_total)
  from shape same nonpos exact near one show ?thesis by blast
qed

theorem start_non_positive_witness:
  "le (Fin (- 1)) (Fin 0) \<and> is_double (- 1 * 60) \<and> - (2 ^ 53) \<le> (- 1 :: rat) * 60 \<and>
   fst (start (Fin (- 1)) 1000 (initial ())) =
     \<lparr>isRunning = True, remainingSeconds = Fin (- 60), totalSeconds = Fin (- 60),
      startedAt = Some 1000\<rparr>"
proof -
  have neg: "le (Fin (- 1)) (Fin 0)" by simp
  have dbl: "is_double (- 1 * 60)"
    using is_double_of_int [of "- 60"] by simp
  have tot: "js_floor (js_times (Fin (- 1)) (Fin 60)) = Fin (- 60)"
    using total_whole [of "- 1"] by simp
  from start_non_positive [OF neg, of 1000 "initial ()" "- 1"] neg dbl tot show ?thesis
    by simp
qed

subsection \<open>C9: a tick while not running\<close>

text \<open>
  C9. A tick that fires while \<open>isRunning\<close> is false returns the engine and its
  surroundings exactly as they were: no field of the state changes, no event is
  appended, no run of the expiry sequence begins. In particular a stale tick after
  \<open>cancel\<close> leaves the idle state unchanged.
\<close>

theorem stale_tick_noop:
  "(\<not> isRunning (state s) \<longrightarrow> tick s = s) \<and> tick (snd (cancel s)) = snd (cancel s)"
  by (simp add: tick_eq cancel_eq idle_def)

theorem stale_tick_noop_witness:
  "\<not> isRunning (state (run [Start (Fin 5) 0, Tick, Cancel] (initial ()))) \<and>
   tick (run [Start (Fin 5) 0, Tick, Cancel] (initial ())) =
     run [Start (Fin 5) 0, Tick, Cancel] (initial ()) \<and>
   trace (tick (run [Start (Fin 5) 0, Tick, Cancel] (initial ()))) =
     [SetInterval 1 1000, Console (Started (Fin 5) (Fin 300)), ClearInterval 1,
      Console Cancelled]"
proof -
  have idle: "\<not> isRunning (state (run [Start (Fin 5) 0, Tick, Cancel] (initial ())))"
    by (simp add: eval_simps)
  have tr: "trace (run [Start (Fin 5) 0, Tick, Cancel] (initial ())) =
     [SetInterval 1 1000, Console (Started (Fin 5) (Fin 300)), ClearInterval 1,
      Console Cancelled]"
    by (simp add: eval_simps)
  from stale_tick_noop [of "run [Start (Fin 5) 0, Tick, Cancel] (initial ())"] idle tr
  show ?thesis by simp
qed

subsection \<open>C10: what the expiry sequence leaves untouched\<close>

text \<open>
  After \<^verbatim>\<open>start(1/120)\<close> the timer runs with \<open>totalSeconds = 0\<close>, and the first tick
  expires it: \<open>totalSeconds\<close> after this natural expiry is zero, not nonzero.
\<close>

theorem total_after_expiry_counterexample:
  "positive_start (Start (round64 (1 / 120)) 7 :: unit action) \<and>
   state (run [Start (round64 (1 / 120)) 7] (initial ())) =
     \<lparr>isRunning = True, remainingSeconds = Fin 0, totalSeconds = Fin 0, startedAt = Some 7\<rparr> \<and>
   state (run [Start (round64 (1 / 120)) 7, Tick] (initial ())) =
     \<lparr>isRunning = False, remainingSeconds = Fin 0, totalSeconds = Fin 0, startedAt = Some 7\<rparr> \<and>
   trace (run [Start (round64 (1 / 120)) 7, Tick] (initial ())) =
     [SetInterval 1 1000, Console (Started (round64 (1 / 120)) (Fin 0)), Console Expired,
      ClearInterval 1, PauseMedia 0] \<and>
   \<not> totalSeconds (state (run [Start (round64 (1 / 120)) 7, Tick] (initial ()))) \<noteq> Fin 0"
  by (simp add: eval_simps total_120th positive_120th round64_neg_numeral)

text \<open>
  C10, as the code has it. The expiry sequence writes only \<open>isRunning\<close> and
  \<open>remainingSeconds\<close>. After the expiring tick of a reachable running timer, and
  through any later actions other than \<open>start\<close> and \<open>cancel\<close> (further ticks, the
  passing of time, the segments of any run of the sequence, registrations), the timer
  state stays the pre-expiry state with those two fields overwritten: \<open>totalSeconds\<close>
  and \<open>startedAt\<close> keep their values, and \<open>startedAt\<close> is set. \<open>totalSeconds\<close> is
  whatever \<open>start\<close> computed, and that may be zero.
\<close>

theorem expiry_frame:
  assumes reach: "s = run pre (initial w)"
    and running: "isRunning (state s)"
    and last: "le (js_minus (remainingSeconds (state s)) (Fin 1)) (Fin 0)"
    and rest: "list_all (\<lambda>a. \<not> is_start a \<and> \<not> is_cancel a) later"
  shows "state (run later (tick s)) = (state s)\<lparr>isRunning := False, remainingSeconds := Fin 0\<rparr> \<and>
    totalSeconds (state (run later (tick s))) = totalSeconds (state s) \<and>
    startedAt (state (run later (tick s))) = startedAt (state s) \<and>
    startedAt (state (run later (tick s))) \<noteq> None"
proof -
  have tick: "state (tick s) = (state s)\<lparr>isRunning := False, remainingSeconds := Fin 0\<rparr>"
    using running last by (simp add: tick_eq expire_eq expired_def decremented_def)
  then have "\<not> isRunning (state (tick s))" by simp
  from frozen_run [OF rest this] tick
  have frame: "state (run later (tick s)) = (state s)\<lparr>isRunning := False, remainingSeconds := Fin 0\<rparr>"
    by simp
  have "one_source s" by (simp add: reach one_source_reached)
  with running have set: "startedAt (state s) \<noteq> None"
    by (simp add: one_source_def)
  from frame set show ?thesis by simp
qed

theorem expiry_frame_witness:
  "isRunning (state (run [Start (round64 (1 / 60)) 3] (initial ()))) \<and>
   le (js_minus (remainingSeconds (state (run [Start (round64 (1 / 60)) 3] (initial ())))) (Fin 1)) (Fin 0) \<and>
   list_all (\<lambda>a. \<not> is_start a \<and> \<not> is_cancel a)
     [Tick, PauseResolved 0 \<lparr>success = True, message = ''paused''\<rparr>, GetState, Advance 1000,
      SettleElapsed 0, SuspendResolved 0 \<lparr>success = False, message = ''denied''\<rparr>, Tick :: unit action] \<and>
   state (run [Tick, PauseResolved 0 \<lparr>success = True, message = ''paused''\<rparr>, GetState,
      Advance 1000, SettleElapsed 0,
      SuspendResolved 0 \<lparr>success = False, message = ''denied''\<rparr>, Tick]
     (tick (run [Start (round64 (1 / 60)) 3] (initial ())))) =
     \<lparr>isRunning = False, remainingSeconds = Fin 0, totalSeconds = Fin 1, startedAt = Some 3\<rparr>"
proof -
  let ?s = "run [Start (round64 (1 / 60)) 3] (initial ())"
  let ?later = "[Tick, PauseResolved 0 \<lparr>success = True, message = ''paused''\<rparr>, GetState,
      Advance 1000, SettleElapsed 0,
      SuspendResolved 0 \<lparr>success = False, message = ''denied''\<rparr>, Tick] :: unit action list"
  have running: "isRunning (state ?s)"
    by (simp add: eval_simps)
  have last: "le (js_minus (remainingSeconds (state ?s)) (Fin 1)) (Fin 0)"
    by (simp add: eval_simps)
  have rest: "list_all (\<lambda>a. \<not> is_start a \<and> \<not> is_cancel a) ?later"
    by simp
  have before: "state ?s = \<lparr>isRunning = True, remainingSeconds = Fin 1, totalSeconds = Fin 1,
      startedAt = Some 3\<rparr>"
    by (simp add: eval_simps)
  from expiry_frame [OF refl running last rest]
  have "state (run ?later (tick ?s)) = (state ?s)\<lparr>isRunning := False, remainingSeconds := Fin 0\<rparr>"
    by (rule conjunct1)
  then have "state (run ?later (tick ?s)) =
     \<lparr>isRunning = False, remainingSeconds = Fin 0, totalSeconds = Fin 1, startedAt = Some 3\<rparr>"
    unfolding before by simp
  with running last rest show ?thesis by blast
qed

end
